(* ===== verification/Rounding.thy ===== *)
theory Rounding
  imports Complex_Main Prelude
begin

text \<open>
  Rounding of exact rational values to the grid of IEEE 754 binary64 numbers: 53 significant
  bits, smallest exponent \<open>-1074\<close>, ties to even. \<^term>\<open>rnd\<close> rounds a magnitude; its
  monotonicity and its exactness on representable values carry every bound the components
  need on computed doubles. The digit count \<open>nlen\<close> and the integer logarithm \<open>ilog\<close> take the
  base as an argument, because printing a double needs them for base ten.
\<close>

section \<open>Integer logarithm\<close>

function nlen :: "int \<Rightarrow> int \<Rightarrow> nat" where
  "nlen b n = (if n \<le> 0 \<or> b < 2 then 0 else Suc (nlen b (n div b)))"
  by pat_completeness auto
termination
  by (relation "measure (\<lambda>(b, n). nat n)") (auto simp: int_div_less_self)

declare nlen.simps [simp del]

lemma nlen_bounds:
  assumes "0 < n" and "2 \<le> b"
  shows "b ^ (nlen b n - 1) \<le> n \<and> n < b ^ nlen b n \<and> 0 < nlen b n"
  using assms
proof (induction b n rule: nlen.induct)
  case (1 b n)
  have unfold: "nlen b n = Suc (nlen b (n div b))"
    using "1.prems" by (simp add: nlen.simps [of b n])
  show ?case
  proof (cases "n < b")
    case True
    then have "n div b = 0" using "1.prems" by simp
    then show ?thesis using "1.prems" True unfold by (simp add: nlen.simps [of b 0])
  next
    case False
    then have pos: "0 < n div b"
      using "1.prems" by (simp add: pos_imp_zdiv_pos_iff)
    let ?k = "nlen b (n div b)"
    have split: "b * (n div b) + n mod b = n" "0 \<le> n mod b" "n mod b < b"
      using "1.prems" by simp_all
    have IH: "b ^ (?k - 1) \<le> n div b" "n div b < b ^ ?k" "0 < ?k"
      using "1.IH" "1.prems" pos by auto
    have "b * b ^ (?k - 1) \<le> b * (n div b)"
      using IH(1) "1.prems" by (intro mult_left_mono) auto
    also have "\<dots> \<le> n"
      using split by linarith
    finally have lo: "b ^ ?k \<le> n"
      using IH(3) by (cases ?k) auto
    have "n < b * (n div b + 1)"
      using split by (simp only: distrib_left mult_1_right)
    also have "\<dots> \<le> b * b ^ ?k"
      using IH(2) "1.prems" by (intro mult_left_mono) auto
    finally have "n < b ^ Suc ?k" by simp
    with lo unfold show ?thesis by simp
  qed
qed

definition ilog :: "int \<Rightarrow> rat \<Rightarrow> int" where
  "ilog b x =
     (if 1 \<le> x then int (nlen b \<lfloor>x\<rfloor>) - 1
      else - int (nlen b (\<lceil>1 / x\<rceil> - 1)))"

lemma ilog_bounds_ge1:
  assumes "1 \<le> x" and "2 \<le> b"
  shows "of_int b powi ilog b x \<le> x \<and> x < of_int b powi (ilog b x + 1)"
proof -
  let ?n = "\<lfloor>x\<rfloor>" and ?k = "nlen b \<lfloor>x\<rfloor>"
  have n: "0 < ?n" using assms(1) by (simp add: le_floor_iff)
  from nlen_bounds [OF n assms(2)]
  have lo: "b ^ (?k - 1) \<le> ?n" and hi: "?n < b ^ ?k" and k: "0 < ?k" by auto
  have "x < of_int (b ^ ?k)" using hi by (simp add: floor_less_iff)
  moreover have "of_int (b ^ (?k - 1)) \<le> x" using lo by (simp add: le_floor_iff)
  moreover have "of_int b powi (int ?k - 1) = (of_int b ^ (?k - 1) :: rat)"
    using k by (simp add: power_int_def nat_diff_distrib')
  ultimately show ?thesis
    using assms(1) by (simp add: ilog_def power_int_def)
qed

lemma ilog_bounds_lt1:
  assumes "0 < x" and "x < 1" and "2 \<le> b"
  shows "of_int b powi ilog b x \<le> x \<and> x < of_int b powi (ilog b x + 1)"
proof -
  let ?n = "\<lceil>1 / x\<rceil> - 1" and ?k = "nlen b (\<lceil>1 / x\<rceil> - 1)"
  have "1 < 1 / x" using assms by (simp add: field_simps)
  then have n: "0 < ?n" by (simp add: less_ceiling_iff)
  from nlen_bounds [OF n assms(3)]
  have lo: "b ^ (?k - 1) \<le> ?n" and hi: "?n < b ^ ?k" and k: "0 < ?k" by auto
  have "\<lceil>1 / x\<rceil> \<le> b ^ ?k" using hi by simp
  then have inv_hi: "1 / x \<le> of_int (b ^ ?k)" by (simp only: ceiling_le_iff)
  have "b ^ (?k - 1) < \<lceil>1 / x\<rceil>" using lo by simp
  then have inv_lo: "of_int (b ^ (?k - 1)) < 1 / x" by (simp only: less_ceiling_iff)
  have b0: "(0::rat) < of_int b ^ j" for j using assms(3) by simp
  have "1 / of_int b ^ ?k \<le> x"
    using inv_hi assms(1) b0 [of ?k] by (simp add: field_simps)
  moreover have "x < 1 / of_int b ^ (?k - 1)"
    using inv_lo assms(1) b0 [of "?k - 1"] by (simp add: field_simps)
  moreover have "of_int b powi (- int ?k + 1) = 1 / (of_int b ^ (?k - 1) :: rat)"
  proof -
    have "- int ?k + 1 = - int (?k - 1)" using k by simp
    then show ?thesis by (simp only: power_int_minus power_int_of_nat) (simp add: field_simps)
  qed
  ultimately show ?thesis
    using assms(2) by (simp add: ilog_def power_int_minus field_simps)
qed

lemma ilog_bounds:
  assumes "0 < x" and "2 \<le> b"
  shows "of_int b powi ilog b x \<le> x" and "x < of_int b powi (ilog b x + 1)"
  using ilog_bounds_ge1 [of x b] ilog_bounds_lt1 [of x b] assms by (cases "1 \<le> x"; simp)+

lemma powi2_mono: "i \<le> j \<Longrightarrow> (2::rat) powi i \<le> 2 powi j"
  by (rule power_int_increasing) auto

lemma powi2_less_iff: "(2::rat) powi i < 2 powi j \<longleftrightarrow> i < j"
  by (metis powi2_mono not_less power_int_strict_increasing
      one_less_numeral_iff semiring_norm(76))

lemma powi2_pos [simp]: "(0::rat) < 2 powi i"
  by simp

lemma ilog2_less: "0 < x \<Longrightarrow> x < 2 powi k \<Longrightarrow> ilog 2 x < k"
  using ilog_bounds(1) [of x 2] powi2_less_iff [of "ilog 2 x" k] by auto

lemma ilog2_mono:
  assumes "0 < x" and "x \<le> y"
  shows "ilog 2 x \<le> ilog 2 y"
proof -
  have "2 powi ilog 2 x \<le> x" using ilog_bounds(1) [of x 2] assms by simp
  also have "\<dots> \<le> y" by fact
  also have "y < 2 powi (ilog 2 y + 1)" using ilog_bounds(2) [of y 2] assms by simp
  finally show ?thesis using powi2_less_iff by force
qed

section \<open>Round half to even\<close>

definition rhe :: "rat \<Rightarrow> int" where
  "rhe x = (let f = \<lfloor>x\<rfloor>; d = x - of_int f in
     if d < 1/2 then f else if 1/2 < d then f + 1 else if even f then f else f + 1)"

lemma rhe_of_int [simp]: "rhe (of_int n) = n"
  by (simp add: rhe_def)

lemma rhe_cases: "rhe x = \<lfloor>x\<rfloor> \<or> rhe x = \<lfloor>x\<rfloor> + 1"
  by (simp add: rhe_def Let_def)

lemma rhe_mono: 
  assumes "x \<le> y"
  shows "rhe x \<le> rhe y"
proof (cases "\<lfloor>x\<rfloor> = \<lfloor>y\<rfloor>")
  case True
  with assms show ?thesis by (auto simp: rhe_def Let_def)
next
  case False
  then have "\<lfloor>x\<rfloor> + 1 \<le> \<lfloor>y\<rfloor>" using floor_mono [OF assms] by simp
  then show ?thesis using rhe_cases [of x] rhe_cases [of y] by auto
qed

lemma rhe_nonneg: "0 \<le> x \<Longrightarrow> 0 \<le> rhe x"
  using rhe_mono [of 0 x] rhe_of_int [of 0] by simp

lemma rhe_error: "\<bar>of_int (rhe x) - x\<bar> \<le> 1/2"
proof -
  have "of_int \<lfloor>x\<rfloor> \<le> x" "x < of_int \<lfloor>x\<rfloor> + 1" using floor_correct [of x] by simp_all
  then show ?thesis unfolding rhe_def Let_def by (auto split: if_splits; linarith)
qed

text \<open>Evaluation on a fraction in lowest or any terms, in integer arithmetic only.\<close>

lemma rhe_fraction:
  assumes "0 < q"
  shows "rhe (of_int p / of_int q) =
    (let f = p div q; r = 2 * (p mod q) in
     if r < q then f else if q < r then f + 1 else if even f then f else f + 1)"
proof -
  have fl: "\<lfloor>of_int p / of_int q :: rat\<rfloor> = p div q"
    by (rule floor_divide_of_int_eq)
  have d: "of_int p / of_int q - of_int (p div q) = (of_int (p mod q) / of_int q :: rat)"
  proof -
    have "(of_int p :: rat) = of_int (q * (p div q) + p mod q)" by simp
    also have "\<dots> = of_int q * of_int (p div q) + of_int (p mod q)"
      by (simp only: of_int_add of_int_mult)
    finally show ?thesis using assms by (simp add: field_simps)
  qed
  have "(of_int (p mod q) / of_int q < (1/2 :: rat)) = (2 * (p mod q) < q)"
    using assms by (simp add: field_simps) (metis of_int_less_iff of_int_mult of_int_numeral)
  moreover have "(1/2 < (of_int (p mod q) / of_int q :: rat)) = (q < 2 * (p mod q))"
    using assms by (simp add: field_simps) (metis of_int_less_iff of_int_mult of_int_numeral)
  ultimately show ?thesis by (simp only: rhe_def fl d Let_def)
qed

lemma rhe_eval [double_simps]:
  fixes m n :: num
  shows
  "rhe 0 = 0"
  "rhe 1 = 1"
  "rhe (numeral m) = numeral m"
  "rhe (1 / numeral n) = (let f = 1 div numeral n; r = 2 * (1 mod (numeral n :: int)) in
     if r < numeral n then f else if numeral n < r then f + 1 else if even f then f else f + 1)"
  "rhe (numeral m / numeral n) =
    (let f = numeral m div numeral n; r = 2 * (numeral m mod (numeral n :: int)) in
     if r < numeral n then f else if numeral n < r then f + 1 else if even f then f else f + 1)"
  using rhe_of_int [of 0] rhe_of_int [of 1] rhe_of_int [of "numeral m"]
    rhe_fraction [of "numeral n" 1] rhe_fraction [of "numeral n" "numeral m"]
  by simp_all

section \<open>Rounding a magnitude to the binary64 grid\<close>

text \<open>The exponent of the last place of the grid around a magnitude.\<close>

definition grid_exp :: "rat \<Rightarrow> int" where
  "grid_exp x = max (ilog 2 x - 52) (-1074)"

definition rnd :: "rat \<Rightarrow> rat" where
  "rnd x = (let u = 2 powi grid_exp x in of_int (rhe (x / u)) * u)"

lemma ilog2_0 [simp]: "ilog 2 0 = 0"
  by (simp add: ilog_def nlen.simps)

lemma rnd_0 [simp]: "rnd 0 = 0"
  using rhe_of_int [of 0] by (simp add: rnd_def Let_def)

lemma rnd_nonneg: "0 \<le> x \<Longrightarrow> 0 \<le> rnd x"
  by (simp add: rnd_def Let_def rhe_nonneg)

lemma powi2_diff: "(2::rat) powi i / 2 powi j = 2 powi (i - j)"
  by (simp add: power_int_diff)

lemma powi2_is_int: "0 \<le> k \<Longrightarrow> \<exists>n. (2::rat) powi k = of_int n"
  by (intro exI [of _ "2 ^ nat k"]) (simp add: power_int_def)

text \<open>A value that is a whole multiple of the unit of its own grid is kept.\<close>

lemma rnd_multiple:
  assumes "x = of_int m * 2 powi e" and "grid_exp x \<le> e"
  shows "rnd x = x"
proof -
  obtain n where n: "(2::rat) powi (e - grid_exp x) = of_int n"
    using powi2_is_int assms(2) by (metis diff_ge_0_iff_ge)
  have "x / 2 powi grid_exp x = of_int (m * n)"
    using assms(1) n by (metis of_int_mult powi2_diff times_divide_eq_right)
  then have "rhe (x / 2 powi grid_exp x) = m * n" by (simp only: rhe_of_int)
  moreover have "of_int (m * n) * 2 powi grid_exp x = x"
    using \<open>x / 2 powi grid_exp x = of_int (m * n)\<close>
    by (metis nonzero_eq_divide_eq order_less_irrefl powi2_pos)
  ultimately show ?thesis by (simp add: rnd_def Let_def)
qed

text \<open>The representable magnitudes: an integer below \<open>2 ^ 53\<close> scaled by a power of two.\<close>

definition representable :: "rat \<Rightarrow> bool" where
  "representable x \<longleftrightarrow> (\<exists>m e. 0 \<le> m \<and> m < 2 ^ 53 \<and> -1074 \<le> e \<and> x = of_int m * 2 powi e)"

lemma representableI:
  "0 \<le> m \<Longrightarrow> m < 2 ^ 53 \<Longrightarrow> -1074 \<le> e \<Longrightarrow> representable (of_int m * 2 powi e)"
  unfolding representable_def by blast

lemma representable_nat: "n < 2 ^ 53 \<Longrightarrow> representable (of_nat n)"
  using representableI [of "int n" 0] by simp

lemma representable_nat_scaled:
  assumes "n < 2 ^ 53" and "k \<le> 1074"
  shows "representable (of_nat n / 2 ^ k)"
proof -
  have "int n < 2 ^ 53" using assms(1) by simp
  moreover have "(of_nat n / 2 ^ k :: rat) = of_int (int n) * 2 powi (- int k)"
    by (simp add: power_int_minus field_simps)
  ultimately show ?thesis using representableI [of "int n" "- int k"] assms(2) by simp
qed

lemma rnd_representable:
  assumes "representable x"
  shows "rnd x = x"
proof -
  obtain m e where m: "0 \<le> m" "m < 2 ^ 53" "-1074 \<le> e" and x: "x = of_int m * 2 powi e"
    using assms by (auto simp: representable_def)
  show ?thesis
  proof (cases "m = 0")
    case True
    with x show ?thesis by simp
  next
    case False
    with m x have pos: "0 < x" by simp
    have "(of_int m :: rat) < of_int (2 ^ 53)" using m(2) by (simp only: of_int_less_iff)
    then have "x < 2 powi 53 * 2 powi e" using x by (simp add: power_int_def)
    then have "x < 2 powi (53 + e)" by (simp add: power_int_add)
    from ilog2_less [OF pos this] m(3) have "grid_exp x \<le> e" by (simp add: grid_exp_def)
    with x show ?thesis by (rule rnd_multiple)
  qed
qed

lemma grid_exp_mono: "0 < x \<Longrightarrow> x \<le> y \<Longrightarrow> grid_exp x \<le> grid_exp y"
  using ilog2_mono [of x y] by (simp add: grid_exp_def)

lemma rnd_mono_same_grid:
  assumes "x \<le> y" and "grid_exp x = grid_exp y"
  shows "rnd x \<le> rnd y"
  using assms by (auto simp: rnd_def Let_def intro!: mult_right_mono rhe_mono divide_right_mono)

text \<open>Rounding up never leaves the binade by more than its upper end, nor down by its lower.\<close>

lemma rnd_le_power:
  assumes "x \<le> 2 powi k" and "grid_exp x \<le> k"
  shows "rnd x \<le> 2 powi k"
proof -
  let ?u = "2 powi grid_exp x :: rat"
  obtain n where n: "(2::rat) powi (k - grid_exp x) = of_int n"
    using powi2_is_int assms(2) by (metis diff_ge_0_iff_ge)
  then have "x / ?u \<le> of_int n"
    using assms(1) by (metis divide_right_mono less_imp_le powi2_diff powi2_pos)
  then have "rhe (x / ?u) \<le> n" using rhe_mono rhe_of_int by metis
  then have "of_int (rhe (x / ?u)) * ?u \<le> of_int n * ?u" by (intro mult_right_mono) auto
  also have "\<dots> = 2 powi k" using n by (metis diff_add_cancel power_int_add zero_neq_numeral)
  finally show ?thesis by (simp add: rnd_def Let_def)
qed

lemma rnd_ge_power:
  assumes "2 powi k \<le> x" and "grid_exp x \<le> k"
  shows "2 powi k \<le> rnd x"
proof -
  let ?u = "2 powi grid_exp x :: rat"
  obtain n where n: "(2::rat) powi (k - grid_exp x) = of_int n"
    using powi2_is_int assms(2) by (metis diff_ge_0_iff_ge)
  then have "of_int n \<le> x / ?u"
    using assms(1) by (metis divide_right_mono less_imp_le powi2_diff powi2_pos)
  then have "n \<le> rhe (x / ?u)" using rhe_mono rhe_of_int by metis
  then have "of_int n * ?u \<le> of_int (rhe (x / ?u)) * ?u" by (intro mult_right_mono) auto
  moreover have "of_int n * ?u = 2 powi k"
    using n by (metis diff_add_cancel power_int_add zero_neq_numeral)
  ultimately show ?thesis by (simp add: rnd_def Let_def)
qed

lemma rnd_mono:
  assumes "0 \<le> x" and "x \<le> y"
  shows "rnd x \<le> rnd y"
proof (cases "x = 0 \<or> grid_exp x = grid_exp y")
  case True
  with assms show ?thesis by (auto simp: rnd_nonneg rnd_mono_same_grid)
next
  case False
  with assms have x: "0 < x" by simp
  then have less: "grid_exp x < grid_exp y"
    using grid_exp_mono assms(2) False by fastforce
  then have k: "grid_exp y = ilog 2 y - 52" "ilog 2 x < ilog 2 y" "grid_exp x \<le> ilog 2 y"
    by (auto simp: grid_exp_def split: if_splits)
  have "x \<le> 2 powi (ilog 2 x + 1)" using ilog_bounds(2) [of x 2] x by simp
  also have "\<dots> \<le> 2 powi ilog 2 y" using k(2) by (intro powi2_mono) simp
  finally have "rnd x \<le> 2 powi ilog 2 y" using k(3) by (rule rnd_le_power)
  also have "\<dots> \<le> rnd y"
    using ilog_bounds(1) [of y 2] x assms(2) k(1) by (intro rnd_ge_power) auto
  finally show ?thesis .
qed

text \<open>Evaluation of the powers of two that occur as grid units.\<close>

lemma powi_eval [double_simps]:
  "(b :: rat) powi 0 = 1"
  "b powi 1 = b"
  "b powi numeral m = b ^ numeral m"
  "b powi (- 1) = 1 / b"
  "b powi (- numeral m) = 1 / b ^ numeral m"
  by (simp_all add: power_int_minus field_simps)

end
