(* ===== verification/Doubles.thy ===== *)
theory Doubles
  imports Rounding
begin

text \<open>
  The C++ type \<open>double\<close> as IEEE 754 binary64 in round-to-nearest mode: NaN (one value, no
  payload), the infinities, negative zero, and the finite values as rationals. Each arithmetic
  operation computes the exact result and rounds it once. The comparisons, \<open>std::max\<close>,
  \<open>std::min\<close>, \<open>std::isfinite\<close>, \<open>std::round\<close> and the conversions between doubles and
  unsigned integers are those of the language; a conversion whose behaviour the language
  leaves undefined is \<^term>\<open>None\<close>.
\<close>

datatype double = NaN | PInf | MInf | NegZero | Fin rat

fun dval :: "double \<Rightarrow> rat" where
  "dval (Fin r) = r"
| "dval _ = 0"

fun isfinite :: "double \<Rightarrow> bool" where
  "isfinite (Fin _) = True"
| "isfinite NegZero = True"
| "isfinite _ = False"

text \<open>The sign bit, which division and multiplication combine.\<close>

fun dneg_sign :: "double \<Rightarrow> bool" where
  "dneg_sign (Fin r) = (r < 0)"
| "dneg_sign NegZero = True"
| "dneg_sign MInf = True"
| "dneg_sign _ = False"

section \<open>Rounding an exact result\<close>

definition fl :: "rat \<Rightarrow> double" where
  "fl x =
     (if x = 0 then Fin 0
      else let r = rnd \<bar>x\<bar> in
        if 2 ^ 1024 \<le> r then (if 0 < x then PInf else MInf)
        else if r = 0 then (if 0 < x then Fin 0 else NegZero)
        else Fin (if 0 < x then r else - r))"

definition signed_zero :: "bool \<Rightarrow> double" where
  "signed_zero neg = (if neg then NegZero else Fin 0)"

definition signed_inf :: "bool \<Rightarrow> double" where
  "signed_inf neg = (if neg then MInf else PInf)"

section \<open>Arithmetic\<close>

fun d_neg :: "double \<Rightarrow> double" where
  "d_neg NaN = NaN"
| "d_neg PInf = MInf"
| "d_neg MInf = PInf"
| "d_neg NegZero = Fin 0"
| "d_neg (Fin r) = (if r = 0 then NegZero else Fin (- r))"

fun d_add :: "double \<Rightarrow> double \<Rightarrow> double" where
  "d_add NaN _ = NaN"
| "d_add _ NaN = NaN"
| "d_add PInf MInf = NaN"
| "d_add MInf PInf = NaN"
| "d_add PInf _ = PInf"
| "d_add _ PInf = PInf"
| "d_add MInf _ = MInf"
| "d_add _ MInf = MInf"
| "d_add NegZero NegZero = NegZero"
| "d_add x y = fl (dval x + dval y)"

definition d_sub :: "double \<Rightarrow> double \<Rightarrow> double" where
  "d_sub x y = d_add x (d_neg y)"

fun d_mul :: "double \<Rightarrow> double \<Rightarrow> double" where
  "d_mul NaN _ = NaN"
| "d_mul _ NaN = NaN"
| "d_mul x y =
     (let neg = (dneg_sign x \<noteq> dneg_sign y) in
      if isfinite x \<and> isfinite y then
        (if dval x * dval y = 0 then signed_zero neg else fl (dval x * dval y))
      else if isfinite x \<and> dval x = 0 \<or> isfinite y \<and> dval y = 0 then NaN
      else signed_inf neg)"

fun d_div :: "double \<Rightarrow> double \<Rightarrow> double" where
  "d_div NaN _ = NaN"
| "d_div _ NaN = NaN"
| "d_div x y =
     (let neg = (dneg_sign x \<noteq> dneg_sign y) in
      if isfinite x then
        (if \<not> isfinite y then signed_zero neg
         else if dval y = 0 then (if dval x = 0 then NaN else signed_inf neg)
         else if dval x = 0 then signed_zero neg
         else fl (dval x / dval y))
      else if isfinite y then signed_inf neg else NaN)"

section \<open>Comparison\<close>

fun d_lt :: "double \<Rightarrow> double \<Rightarrow> bool" where
  "d_lt NaN _ = False"
| "d_lt _ NaN = False"
| "d_lt MInf y = (y \<noteq> MInf)"
| "d_lt _ MInf = False"
| "d_lt PInf _ = False"
| "d_lt _ PInf = True"
| "d_lt x y = (dval x < dval y)"

fun d_eq :: "double \<Rightarrow> double \<Rightarrow> bool" where
  "d_eq NaN _ = False"
| "d_eq _ NaN = False"
| "d_eq PInf y = (y = PInf)"
| "d_eq MInf y = (y = MInf)"
| "d_eq x y = (isfinite y \<and> dval x = dval y)"

definition d_le :: "double \<Rightarrow> double \<Rightarrow> bool" where
  "d_le x y \<longleftrightarrow> d_lt x y \<or> d_eq x y"

text \<open>\<open>std::max\<close> and \<open>std::min\<close> return the first argument unless the comparison moves them.\<close>

definition d_max :: "double \<Rightarrow> double \<Rightarrow> double" where
  "d_max a b = (if d_lt a b then b else a)"

definition d_min :: "double \<Rightarrow> double \<Rightarrow> double" where
  "d_min a b = (if d_lt b a then b else a)"

section \<open>Rounding to integers and conversion\<close>

text \<open>\<open>std::round\<close>: to the nearest integer, halves away from zero, the sign of zero kept.\<close>

fun d_round :: "double \<Rightarrow> double" where
  "d_round (Fin r) =
     (if r < 0 then (let n = \<lfloor>- r + 1/2\<rfloor> in if n = 0 then NegZero else Fin (- of_int n))
      else Fin (of_int \<lfloor>r + 1/2\<rfloor>))"
| "d_round x = x"

definition d_of_nat :: "nat \<Rightarrow> double" where
  "d_of_nat n = fl (of_nat n)"

text \<open>
  \<open>static_cast\<close> of a double to an unsigned type: the truncated value, undefined when that
  does not fit.
\<close>

definition to_unsigned :: "nat \<Rightarrow> double \<Rightarrow> nat option" where
  "to_unsigned limit x =
     (if isfinite x \<and> - 1 < dval x \<and> dval x < of_nat limit then Some (nat \<lfloor>dval x\<rfloor>) else None)"

definition d_to_u64 :: "double \<Rightarrow> u64 option" where
  "d_to_u64 x = map_option of_nat (to_unsigned (2 ^ 64) x)"

definition d_to_u32 :: "double \<Rightarrow> u32 option" where
  "d_to_u32 x = map_option of_nat (to_unsigned (2 ^ 32) x)"

section \<open>Facts about rounding and order\<close>

lemma fl_0 [simp]: "fl 0 = Fin 0"
  by (simp add: fl_def)

lemma fl_representable:
  assumes "representable x" and "x < 2 ^ 1024"
  shows "fl x = Fin x"
proof -
  have "0 \<le> x" using assms(1) by (auto simp: representable_def)
  then show ?thesis using rnd_representable [OF assms(1)] assms(2) by (simp add: fl_def)
qed

lemma d_of_nat_exact: 
  assumes "n < 2 ^ 53"
  shows "d_of_nat n = Fin (of_nat n)"
proof -
  have "(of_nat n :: rat) < of_nat (2 ^ 53)" using assms by (simp only: of_nat_less_iff)
  also have "\<dots> \<le> 2 ^ 1024" by (simp)
  finally show ?thesis
    unfolding d_of_nat_def by (intro fl_representable representable_nat assms)
qed

lemma rnd_lt_overflow:
  assumes "0 \<le> x" and "x \<le> y" and "representable y" and "y < 2 ^ 1024"
  shows "rnd x < 2 ^ 1024"
  using rnd_mono [OF assms(1,2)] rnd_representable [OF assms(3)] assms(4) by simp

text \<open>A nonnegative value bounded by a representable one stays bounded after rounding.\<close>

lemma fl_bounded:
  assumes "0 \<le> x" and "x \<le> y" and "representable y" and "y < 2 ^ 1024"
  shows "fl x = Fin (rnd x)" and "0 \<le> rnd x" and "rnd x \<le> y"
proof -
  have b: "rnd x \<le> y" using rnd_mono [OF assms(1,2)] rnd_representable [OF assms(3)] by simp
  then show "rnd x \<le> y" .
  show n: "0 \<le> rnd x" by (rule rnd_nonneg [OF assms(1)])
  have "\<not> 2 ^ 1024 \<le> rnd x" using b assms(4) by simp
  then show "fl x = Fin (rnd x)" using assms(1) by (auto simp: fl_def Let_def)
qed

text \<open>Monotonicity of rounding, with a representable lower bound kept.\<close>

lemma rnd_ge_representable:
  assumes "representable y" and "y \<le> x"
  shows "y \<le> rnd x"
proof -
  have "0 \<le> y" using assms(1) by (auto simp: representable_def)
  then show ?thesis using rnd_mono [of y x] rnd_representable [OF assms(1)] assms(2) by simp
qed

lemma isfinite_iff: "isfinite x \<longleftrightarrow> x = NegZero \<or> (\<exists>r. x = Fin r)"
  by (cases x) auto

lemma d_lt_finite: "isfinite x \<Longrightarrow> isfinite y \<Longrightarrow> d_lt x y \<longleftrightarrow> dval x < dval y"
  by (cases x; cases y) auto

lemma d_eq_finite: "isfinite x \<Longrightarrow> isfinite y \<Longrightarrow> d_eq x y \<longleftrightarrow> dval x = dval y"
  by (cases x; cases y) auto

lemma d_le_finite: "isfinite x \<Longrightarrow> isfinite y \<Longrightarrow> d_le x y \<longleftrightarrow> dval x \<le> dval y"
  by (auto simp: d_le_def d_lt_finite d_eq_finite)

lemma d_max_finite:
  "isfinite x \<Longrightarrow> isfinite y \<Longrightarrow> isfinite (d_max x y) \<and> dval (d_max x y) = max (dval x) (dval y)"
  by (auto simp: d_max_def d_lt_finite)

lemma d_min_finite:
  "isfinite x \<Longrightarrow> isfinite y \<Longrightarrow> isfinite (d_min x y) \<and> dval (d_min x y) = min (dval x) (dval y)"
  by (auto simp: d_min_def d_lt_finite)

lemma d_eq_refl: "d_eq x x \<longleftrightarrow> x \<noteq> NaN"
  by (cases x) auto

lemma d_eq_sym: "d_eq x y \<Longrightarrow> d_eq y x"
  by (cases x; cases y) auto

lemma d_eq_trans: "d_eq x y \<Longrightarrow> d_eq y z \<Longrightarrow> d_eq x z"
  by (cases x; cases y; cases z) auto

text \<open>Adding and subtracting integers in the exact range.\<close>

lemma d_add_finite:
  "isfinite x \<Longrightarrow> isfinite y \<Longrightarrow>
    d_add x y = (if x = NegZero \<and> y = NegZero then NegZero else fl (dval x + dval y))"
  by (cases x; cases y) auto

lemma fl_neg: "x < 0 \<Longrightarrow> fl x = d_neg (fl (- x))"
  by (auto simp: fl_def Let_def)

section \<open>Nonnegative values, infinity included\<close>

lemma d_le_0_iff: "d_le (Fin 0) x \<longleftrightarrow> x = PInf \<or> isfinite x \<and> 0 \<le> dval x"
  by (cases x) (auto simp: d_le_def)

lemma d_le_0_fl: "0 \<le> x \<Longrightarrow> d_le (Fin 0) (fl x)"
  using rnd_nonneg [of x] by (auto simp: d_le_0_iff fl_def Let_def)

lemma d_le_0_add: "d_le (Fin 0) x \<Longrightarrow> d_le (Fin 0) y \<Longrightarrow> d_le (Fin 0) (d_add x y)"
  by (cases x; cases y) (auto simp: d_le_0_iff [of x] d_le_0_iff [of y] intro!: d_le_0_fl, simp_all add: d_le_0_iff)

lemma d_le_0_mul: "d_le (Fin 0) x \<Longrightarrow> 0 < r \<Longrightarrow> d_le (Fin 0) (d_mul x (Fin r))"
  by (cases x) (auto simp: d_le_0_iff [of x] signed_zero_def signed_inf_def Let_def not_less intro!: d_le_0_fl,
      simp_all add: d_le_0_iff)

lemma d_le_0_div: "d_le (Fin 0) x \<Longrightarrow> 0 < r \<Longrightarrow> d_le (Fin 0) (d_div x (Fin r))"
  by (cases x) (auto simp: d_le_0_iff [of x] signed_zero_def signed_inf_def Let_def not_less intro!: d_le_0_fl,
      simp_all add: d_le_0_iff)

text \<open>Unsigned integers of 64 bits as doubles.\<close>

lemma d_of_nat_word:
  assumes "n < 2 ^ 64"
  shows "d_of_nat n = Fin (rnd (of_nat n))" and "0 \<le> rnd (of_nat n)"
proof -
  have "representable (2 ^ 64)" using representableI [of 1 64] by simp
  moreover have "(of_nat n :: rat) \<le> 2 ^ 64"
    using assms by (metis less_imp_le of_nat_le_iff of_nat_numeral of_nat_power)
  ultimately show "d_of_nat n = Fin (rnd (of_nat n))" "0 \<le> rnd (of_nat n)"
    using fl_bounded [of "of_nat n" "2 ^ 64"] by (simp_all add: d_of_nat_def)
qed

lemma d_of_nat_word_pos:
  assumes "0 < n" and "n < 2 ^ 64"
  shows "\<exists>r. d_of_nat n = Fin r \<and> 1 \<le> r"
proof -
  have "representable 1" using representable_nat [of 1] by simp
  moreover have "(1 :: rat) \<le> of_nat n" using assms(1) by simp
  ultimately have "1 \<le> rnd (of_nat n)" by (rule rnd_ge_representable)
  then show ?thesis using d_of_nat_word(1) [OF assms(2)] by blast
qed

section \<open>Evaluation on concrete values\<close>

lemma ilog_eval [double_simps]:
  "ilog 2 x = (if 1 \<le> x then int (nlen 2 \<lfloor>x\<rfloor>) - 1 else - int (nlen 2 (\<lceil>1 / x\<rceil> - 1)))"
  "ilog 10 x = (if 1 \<le> x then int (nlen 10 \<lfloor>x\<rfloor>) - 1 else - int (nlen 10 (\<lceil>1 / x\<rceil> - 1)))"
  by (simp_all add: ilog_def)

lemma floor_fraction_eval [double_simps]:
  fixes m n :: num
  shows "\<lfloor>numeral m / numeral n :: rat\<rfloor> = numeral m div numeral n"
    and "\<lfloor>1 / numeral n :: rat\<rfloor> = 1 div numeral n"
    and "\<lceil>numeral m / numeral n :: rat\<rceil> = - (- numeral m div numeral n)"
    and "\<lceil>1 / numeral n :: rat\<rceil> = - (- 1 div numeral n)"
  using floor_divide_of_int_eq [of "numeral m" "numeral n", where ?'a = rat]
    floor_divide_of_int_eq [of 1 "numeral n", where ?'a = rat]
    floor_divide_of_int_eq [of "- numeral m" "numeral n", where ?'a = rat]
    floor_divide_of_int_eq [of "- 1" "numeral n", where ?'a = rat]
  by (simp_all add: ceiling_def)

lemmas double_eval = double_simps fl_def rnd_def grid_exp_def nlen.simps Let_def
  d_max_def d_min_def d_le_def d_sub_def d_of_nat_def signed_zero_def signed_inf_def

end
