(* ===== verification/CxxText.thy ===== *)
theory CxxText
  imports Doubles
begin

text \<open>
  The parts of \<open>std::string\<close>, \<open><cctype>\<close>, \<open>std::stoull\<close>, \<open>std::stod\<close> and \<open>std::ostream\<close>
  that the bridge uses, in the "C" locale. A \<open>std::string\<close> is a list of bytes; positions are
  natural numbers and \<open>npos\<close> is \<^term>\<open>None\<close>.
\<close>

abbreviation dquote :: char where "dquote \<equiv> CHR 0x22"
abbreviation bslash :: char where "bslash \<equiv> CHR 0x5C"
abbreviation newline :: char where "newline \<equiv> CHR 0x0A"
abbreviation carriage :: char where "carriage \<equiv> CHR 0x0D"

section \<open>Character classes and search\<close>

definition byte_of :: "char \<Rightarrow> nat" where
  "byte_of c = of_char c"

definition c_isspace :: "char \<Rightarrow> bool" where
  "c_isspace c \<longleftrightarrow> byte_of c = 32 \<or> 9 \<le> byte_of c \<and> byte_of c \<le> 13"

definition c_isdigit :: "char \<Rightarrow> bool" where
  "c_isdigit c \<longleftrightarrow> 48 \<le> byte_of c \<and> byte_of c \<le> 57"

definition c_tolower :: "char \<Rightarrow> char" where
  "c_tolower c = (if 65 \<le> byte_of c \<and> byte_of c \<le> 90 then char_of (byte_of c + 32) else c)"

text \<open>\<open>hay.find(needle, start)\<close>.\<close>

fun find_prefix :: "string \<Rightarrow> string \<Rightarrow> nat option" where
  "find_prefix needle [] = (if needle = [] then Some 0 else None)"
| "find_prefix needle (c # cs) =
     (if prefix needle (c # cs) then Some 0 else map_option Suc (find_prefix needle cs))"

definition str_find :: "string \<Rightarrow> string \<Rightarrow> nat \<Rightarrow> nat option" where
  "str_find needle hay start =
     (if length hay < start then None
      else map_option (\<lambda>i. start + i) (find_prefix needle (drop start hay)))"

text \<open>\<open>hay.substr(pos, len)\<close> for \<open>pos\<close> within the string.\<close>

definition substr :: "string \<Rightarrow> nat \<Rightarrow> nat \<Rightarrow> string" where
  "substr hay pos len = take len (drop pos hay)"

lemma find_prefix_Some:
  "find_prefix needle hay = Some i \<Longrightarrow> i \<le> length hay \<and> prefix needle (drop i hay)"
proof (induction hay arbitrary: i)
  case Nil
  then show ?case by (simp split: if_splits)
next
  case (Cons c cs)
  then show ?case by (cases i) (auto split: if_splits)
qed

lemma find_prefix_least:
  "find_prefix needle hay = Some i \<Longrightarrow> j < i \<Longrightarrow> \<not> prefix needle (drop j hay)"
proof (induction hay arbitrary: i j)
  case Nil
  then show ?case by (simp split: if_splits)
next
  case (Cons c cs)
  then show ?case by (cases j) (auto split: if_splits)
qed

lemma find_prefix_None: "find_prefix needle hay = None \<longleftrightarrow> \<not> sublist needle hay"
proof (induction hay)
  case Nil
  then show ?case by auto
next
  case (Cons c cs)
  then show ?case by (auto simp: sublist_Cons_right)
qed

lemma str_find_Some:
  assumes "str_find needle hay start = Some i"
  shows "start \<le> i" and "i + length needle \<le> length hay" and "prefix needle (drop i hay)"
proof -
  from assms obtain j where j: "find_prefix needle (drop start hay) = Some j" "i = start + j"
    "start \<le> length hay"
    by (auto simp: str_find_def split: if_splits)
  from find_prefix_Some [OF j(1)] j(2,3)
  have p: "prefix needle (drop i hay)" and l: "i \<le> length hay" by (auto simp: add.commute)
  show "start \<le> i" using j by simp
  show "prefix needle (drop i hay)" by (rule p)
  show "i + length needle \<le> length hay" using prefix_length_le [OF p] l by simp
qed

text \<open>A search over text that starts with a part free of the needle's first character.\<close>

lemma find_prefix_skip:
  assumes "d \<notin> set xs"
  shows "find_prefix (d # needle) (xs @ ys) = map_option (\<lambda>i. length xs + i) (find_prefix (d # needle) ys)"
  using assms
proof (induction xs)
  case Nil
  then show ?case by (simp add: option.map_ident)
next
  case (Cons x xs)
  then show ?case by (auto simp: option.map_comp o_def)
qed

section \<open>Reading numbers\<close>

definition digit_value :: "char \<Rightarrow> nat" where
  "digit_value c =
     (let n = byte_of c in
      if 48 \<le> n \<and> n \<le> 57 then n - 48
      else if 97 \<le> n \<and> n \<le> 102 then n - 87
      else if 65 \<le> n \<and> n \<le> 70 then n - 55 else 0)"

definition c_isxdigit :: "char \<Rightarrow> bool" where
  "c_isxdigit c \<longleftrightarrow> c_isdigit c \<or> 97 \<le> byte_of c \<and> byte_of c \<le> 102 \<or> 65 \<le> byte_of c \<and> byte_of c \<le> 70"

definition digits_value :: "nat \<Rightarrow> string \<Rightarrow> nat" where
  "digits_value base ds = foldl (\<lambda>a d. a * base + digit_value d) 0 ds"

text \<open>An optional sign: whether it is a minus, and the rest of the text.\<close>

fun split_sign :: "string \<Rightarrow> bool \<times> string" where
  "split_sign (c # s) = (if c = CHR ''-'' then (True, s) else if c = CHR ''+'' then (False, s) else (False, c # s))"
| "split_sign [] = (False, [])"

text \<open>\<open>std::stoull(s)\<close>, base ten: a minus sign negates modulo \<open>2 ^ 64\<close>.\<close>

definition stoull :: "string \<Rightarrow> u64 result" where
  "stoull s =
     (let (neg, t) = split_sign (dropWhile c_isspace s); ds = takeWhile c_isdigit t; v = digits_value 10 ds in
      if ds = [] then Inl (Invalid_Argument ''stoull'')
      else if 2 ^ 64 \<le> v then Inl (Out_Of_Range ''stoull'')
      else Inr (if neg then - of_nat v else of_nat v))"

text \<open>
  The number at the start of a text, as \<open>strtod\<close> reads it after the sign: digits with an
  optional point and an optional exponent. The base is ten with exponent letter \<open>e\<close>, or
  sixteen with exponent letter \<open>p\<close>. The result is the exact value and the unread rest.
\<close>

definition split_fraction :: "(char \<Rightarrow> bool) \<Rightarrow> string \<Rightarrow> string \<times> string" where
  "split_fraction isd s =
     (case s of c # t \<Rightarrow> if c = CHR ''.'' then (takeWhile isd t, dropWhile isd t) else ([], s)
      | [] \<Rightarrow> ([], s))"

definition split_exponent :: "char \<Rightarrow> string \<Rightarrow> int \<times> string" where
  "split_exponent letter s =
     (case s of [] \<Rightarrow> (0, s)
      | c # t \<Rightarrow>
          let (neg, u) = split_sign t; ds = takeWhile c_isdigit u; v = int (digits_value 10 ds) in
          if c_tolower c = letter \<and> ds \<noteq> [] then (if neg then - v else v, dropWhile c_isdigit u)
          else (0, s))"

definition scan_number :: "nat \<Rightarrow> (char \<Rightarrow> bool) \<Rightarrow> char \<Rightarrow> rat \<Rightarrow> string \<Rightarrow> (rat \<times> string) option" where
  "scan_number base isd letter ebase s =
     (let ip = takeWhile isd s; (fp, s1) = split_fraction isd (dropWhile isd s) in
      if ip = [] \<and> fp = [] then None
      else let (e, rest) = split_exponent letter s1 in
        Some (of_nat (digits_value base (ip @ fp)) / of_nat base ^ length fp * ebase powi e, rest))"

definition has_prefix_ci :: "string \<Rightarrow> string \<Rightarrow> bool" where
  "has_prefix_ci p s \<longleftrightarrow> take (length p) (map c_tolower s) = p"

datatype scanned = Scan_Fail | Scan_NaN string | Scan_Inf string | Scan_Value rat string

definition nan_rest :: "string \<Rightarrow> string" where
  "nan_rest s =
     (case s of c # t \<Rightarrow>
        let body = takeWhile (\<lambda>d. c_isdigit d \<or> d = CHR ''_'' \<or> (97 \<le> byte_of (c_tolower d) \<and> byte_of (c_tolower d) \<le> 122)) t;
            u = drop (length body) t in
        if c = CHR ''('' \<and> u \<noteq> [] \<and> hd u = CHR '')'' then tl u else s
      | [] \<Rightarrow> s)"

definition strtod_scan :: "string \<Rightarrow> scanned" where
  "strtod_scan s =
     (if has_prefix_ci ''infinity'' s then Scan_Inf (drop 8 s)
      else if has_prefix_ci ''inf'' s then Scan_Inf (drop 3 s)
      else if has_prefix_ci ''nan'' s then Scan_NaN (nan_rest (drop 3 s))
      else case (if has_prefix_ci ''0x'' s then scan_number 16 c_isxdigit (CHR ''p'') 2 (drop 2 s) else None) of
        Some (v, rest) \<Rightarrow> Scan_Value v rest
      | None \<Rightarrow>
          (case scan_number 10 c_isdigit (CHR ''e'') 10 s of
            Some (v, rest) \<Rightarrow> Scan_Value v rest
          | None \<Rightarrow> Scan_Fail))"

text \<open>
  \<open>std::stod(s, &consumed)\<close>: no conversion throws \<open>invalid_argument\<close>; a result that
  overflows, or that is subnormal and inexact, sets \<open>ERANGE\<close> and throws \<open>out_of_range\<close>.
\<close>

definition range_error :: "rat \<Rightarrow> bool" where
  "range_error v \<longleftrightarrow>
     v \<noteq> 0 \<and> (2 ^ 1024 \<le> rnd v \<or> rnd v < 1 / 2 ^ 1022 \<and> rnd v \<noteq> v)"

definition stod :: "string \<Rightarrow> (double \<times> nat) result" where
  "stod s =
     (let (neg, t) = split_sign (dropWhile c_isspace s) in
      case strtod_scan t of
        Scan_Fail \<Rightarrow> Inl (Invalid_Argument ''stod'')
      | Scan_NaN rest \<Rightarrow> Inr (NaN, length s - length rest)
      | Scan_Inf rest \<Rightarrow> Inr (signed_inf neg, length s - length rest)
      | Scan_Value v rest \<Rightarrow>
          if range_error v then Inl (Out_Of_Range ''stod'')
          else Inr (if neg then d_neg (fl v) else fl v, length s - length rest))"

text \<open>Evaluation on concrete texts.\<close>

lemmas number_eval = stod_def strtod_scan_def scan_number_def has_prefix_ci_def c_tolower_def
  split_fraction_def split_exponent_def digits_value_def range_error_def double_eval

section \<open>Writing numbers\<close>

definition digit_char :: "nat \<Rightarrow> char" where
  "digit_char d = ''0123456789'' ! d"

text \<open>\<open>output << n\<close> and \<open>std::to_string(n)\<close> for an unsigned integer.\<close>

fun show_nat :: "nat \<Rightarrow> string" where
  "show_nat n = (if n < 10 then [digit_char n] else show_nat (n div 10) @ [digit_char (n mod 10)])"

declare show_nat.simps [simp del]

definition strip_zeros :: "string \<Rightarrow> string" where
  "strip_zeros ds = rev (dropWhile (\<lambda>c. c = CHR ''0'') (rev ds))"

definition dot_part :: "string \<Rightarrow> string" where
  "dot_part ds = (if ds = [] then [] else CHR ''.'' # ds)"

text \<open>
  \<open>output << x\<close> in the default float format with precision \<open>p\<close>, that is \<open>%.pg\<close>: the
  decimal exponent after rounding to \<open>p\<close> digits decides between fixed and scientific form,
  and trailing zeros are dropped.
\<close>

definition show_exponent :: "int \<Rightarrow> string" where
  "show_exponent x =
     CHR ''e'' # (if x < 0 then CHR ''-'' else CHR ''+'') #
     (let ds = show_nat (nat \<bar>x\<bar>) in if length ds < 2 then CHR ''0'' # ds else ds)"

definition general_digits :: "nat \<Rightarrow> rat \<Rightarrow> int \<times> int" where
  "general_digits p r =
     (let x0 = ilog 10 r; m0 = rhe (r / 10 powi (x0 - (int p - 1))) in
      if m0 = 10 ^ p then (10 ^ (p - 1), x0 + 1) else (m0, x0))"

definition general_pos :: "nat \<Rightarrow> rat \<Rightarrow> string" where
  "general_pos p r =
     (let (m, x) = general_digits p r; ds = show_nat (nat m) in
      if x < - 4 \<or> int p \<le> x then
        take 1 ds @ dot_part (strip_zeros (drop 1 ds)) @ show_exponent x
      else if 0 \<le> x then
        take (nat x + 1) ds @ dot_part (strip_zeros (drop (nat x + 1) ds))
      else
        ''0'' @ dot_part (replicate (nat (- x) - 1) (CHR ''0'') @ strip_zeros ds))"

fun show_general :: "nat \<Rightarrow> double \<Rightarrow> string" where
  "show_general p NaN = ''nan''"
| "show_general p PInf = ''inf''"
| "show_general p MInf = ''-inf''"
| "show_general p NegZero = ''-0''"
| "show_general p (Fin r) =
     (if r = 0 then ''0'' else if 0 < r then general_pos p r else CHR ''-'' # general_pos p (- r))"

text \<open>\<open>output << std::fixed << std::setprecision(p) << x\<close>, that is \<open>%.pf\<close>.\<close>

definition fixed_pos :: "nat \<Rightarrow> rat \<Rightarrow> string" where
  "fixed_pos p r =
     (let m = nat (rhe (r * 10 ^ p));
          fp = show_nat (m mod 10 ^ p) in
      show_nat (m div 10 ^ p) @
      (if p = 0 then [] else CHR ''.'' # replicate (p - length fp) (CHR ''0'') @ fp))"

fun show_fixed :: "nat \<Rightarrow> double \<Rightarrow> string" where
  "show_fixed p NaN = ''nan''"
| "show_fixed p PInf = ''inf''"
| "show_fixed p MInf = ''-inf''"
| "show_fixed p NegZero = CHR ''-'' # fixed_pos p 0"
| "show_fixed p (Fin r) = (if 0 \<le> r then fixed_pos p r else CHR ''-'' # fixed_pos p (- r))"

end
