(* ===== verification/TcpClient.thy ===== *)
theory TcpClient
  imports CxxText
begin

text \<open>
  \<open>src/windows_adapter/TcpJsonlClient.hpp\<close> and \<open>.cpp\<close>: the client that keeps a TCP connection
  to the service and exchanges lines with it. Its two threads are a step relation: the caller
  queues messages, starts and stops; the worker connects, sends, receives and reconnects. Every
  critical section of \<open>mQueueMutex\<close> is one step. The sockets are the operating system's: what
  they do appears as the outcomes of its calls (\<open>Answers\<close>, \<open>io_event\<close>, and the choice among the steps).

  The state also records, for the proofs only, what was sent on the present connection, the
  lines handed to the handler, and every queueing call (the fields \<open>g_\<close>...).
\<close>

section \<open>Configuration\<close>

record TcpClientConfig =
  cfg_host :: string
  cfg_port :: u16
  cfg_connectTimeoutMs :: u32
  cfg_reconnectDelayMs :: u32
  cfg_maxPendingMessages :: nat

definition default_config :: TcpClientConfig where
  "default_config = \<lparr>cfg_host = [], cfg_port = 18080, cfg_connectTimeoutMs = 5000,
     cfg_reconnectDelayMs = 1000, cfg_maxPendingMessages = 128\<rparr>"

section \<open>Text operations\<close>

text \<open>Strip trailing line ends, then add one.\<close>

definition Normalize :: "string \<Rightarrow> string" where
  "Normalize json = rev (dropWhile (\<lambda>c. c = carriage \<or> c = newline) (rev json)) @ [newline]"

text \<open>
  The lines a buffer holds, as passed to the handler, and the rest. Whether there is a handler
  does not change while the loop runs.
\<close>

function DispatchLines :: "bool \<Rightarrow> string \<Rightarrow> string list \<times> string" where
  "DispatchLines hasHandler buffer =
     (case str_find [newline] buffer 0 of
        None \<Rightarrow> ([], buffer)
      | Some n \<Rightarrow>
          (let line = substr buffer 0 n;
               line' = (if line \<noteq> [] \<and> last line = carriage then butlast line else line);
               (ls, rest) = DispatchLines hasHandler (drop (n + 1) buffer) in
           (if hasHandler \<and> line' \<noteq> [] then line' # ls else ls, rest)))"
  by pat_completeness auto
termination
  by (relation "measure (\<lambda>(h, buffer). length buffer)") (auto dest: str_find_Some(2))

declare DispatchLines.simps [simp del]

section \<open>Sockets\<close>

text \<open>
  What the operating system answers for one address of the host: the handle of a new socket, if
  there is one, the flags it has and the result of setting them, the result of \<open>connect\<close> with the
  error code after it, the result of \<open>select\<close> for the direction and the time limit it is given,
  and the result of \<open>getsockopt\<close> with the error of the socket. The branches are the POSIX ones.
\<close>

datatype errno = EAGAIN | EWOULDBLOCK | EINPROGRESS | Other_Error

record Answers =
  os_socket :: "nat option"
  os_getFlags :: int
  os_setFlags :: "int \<Rightarrow> int"
  os_connect :: int
  os_errno :: errno
  os_select :: "bool \<Rightarrow> u32 \<times> u32 \<Rightarrow> int"
  os_sockopt :: "int \<times> int"

definition O_NONBLOCK :: int where
  "O_NONBLOCK = 2048"

text \<open>The handles that are closed: none for the invalid one.\<close>

definition CloseSocket :: "nat option \<Rightarrow> nat list" where
  "CloseSocket socket = (case socket of None \<Rightarrow> [] | Some h \<Rightarrow> [h])"

definition SetNonBlocking :: "Answers \<Rightarrow> bool" where
  "SetNonBlocking a \<longleftrightarrow> 0 \<le> os_getFlags a \<and> os_setFlags a (or (os_getFlags a) O_NONBLOCK) = 0"

definition WouldBlock :: "errno \<Rightarrow> bool" where
  "WouldBlock e \<longleftrightarrow> e = EWOULDBLOCK \<or> e = EAGAIN \<or> e = EINPROGRESS"

text \<open>The seconds and microseconds of a time limit, and the wait for one direction.\<close>

definition timeval :: "u32 \<Rightarrow> u32 \<times> u32" where
  "timeval timeoutMs = (timeoutMs div 1000, (timeoutMs mod 1000) * 1000)"

definition WaitSocket :: "Answers \<Rightarrow> bool \<Rightarrow> u32 \<Rightarrow> bool" where
  "WaitSocket a writable timeoutMs \<longleftrightarrow> 0 < os_select a writable (timeval timeoutMs)"

definition ConnectionSucceeded :: "Answers \<Rightarrow> bool" where
  "ConnectionSucceeded a \<longleftrightarrow> fst (os_sockopt a) = 0 \<and> snd (os_sockopt a) = 0"

text \<open>The loop over the addresses: the connected handle and the handles closed.\<close>

fun connect_loop :: "TcpClientConfig \<Rightarrow> Answers list \<Rightarrow> nat option \<times> nat list" where
  "connect_loop config [] = (None, [])"
| "connect_loop config (a # addresses) =
     (if os_socket a = None \<or> \<not> SetNonBlocking a then
        (let (r, closed) = connect_loop config addresses in (r, CloseSocket (os_socket a) @ closed))
      else if os_connect a = 0 \<or>
          (WouldBlock (os_errno a) \<and> WaitSocket a True (cfg_connectTimeoutMs config) \<and> ConnectionSucceeded a)
        then (os_socket a, [])
      else
        (let (r, closed) = connect_loop config addresses in (r, CloseSocket (os_socket a) @ closed)))"

text \<open>The resolver gives the addresses of a host and a port as text, or fails.\<close>

definition Connect :: "TcpClientConfig \<Rightarrow> (string \<Rightarrow> string \<Rightarrow> Answers list option) \<Rightarrow> nat option \<times> nat list" where
  "Connect config getaddrinfo =
     (case getaddrinfo (cfg_host config) (show_nat (unat (cfg_port config))) of
        None \<Rightarrow> (None, [])
      | Some addresses \<Rightarrow> connect_loop config addresses)"

section \<open>Sending\<close>

text \<open>
  What one turn of the loop of \<open>SendAll\<close> meets: the socket does not become writable in time,
  \<open>send\<close> accepts some bytes, it accepts none because it would block, or it fails.
\<close>

datatype io_event = Wait_Timeout | Sent nat | Would_Block | Send_Error

text \<open>
  The bytes handed to the network and the return value, \<^term>\<open>None\<close> while the loop still runs
  when the events are used up.
\<close>

fun SendAll :: "io_event list \<Rightarrow> string \<Rightarrow> nat \<Rightarrow> string \<times> bool option" where
  "SendAll [] message sent = ([], if sent < length message then None else Some True)"
| "SendAll (event # events) message sent =
     (if sent < length message then
        (case event of
           Wait_Timeout \<Rightarrow> ([], Some False)
         | Sent written \<Rightarrow>
             (let (out, r) = SendAll events message (sent + written) in
              (take written (drop sent message) @ out, r))
         | Would_Block \<Rightarrow> SendAll events message sent
         | Send_Error \<Rightarrow> ([], Some False))
      else ([], Some True))"

section \<open>State\<close>

text \<open>Where the worker thread is.\<close>

datatype worker =
    No_Thread
  | Connecting   \<comment> \<open>at the head of the loop of \<open>Run\<close>, or waiting to reconnect\<close>
  | Opened       \<comment> \<open>connected, before the first critical section of \<open>ProcessConnection\<close>\<close>
  | Serving      \<comment> \<open>in the loop of \<open>ProcessConnection\<close>\<close>
  | Closing      \<comment> \<open>\<open>ProcessConnection\<close> has returned\<close>

datatype queue_call = Call_Initial string | Call_Delta string string

record Client =
  mRunning :: bool
  mConnected :: bool
  mPending :: "string list"
  mResync :: string
  mHandler :: bool
  worker :: worker
  current :: string
  received :: string
  g_wire :: "string list"
  g_bytes :: string
  g_lines :: "string list"
  g_calls :: "queue_call list"

text \<open>The constructor.\<close>

definition new_client :: "TcpClientConfig \<Rightarrow> Client result" where
  "new_client config =
     (if cfg_host config = [] \<or> cfg_port config = 0 \<or> cfg_maxPendingMessages config = 0
      then Inl (Invalid_Argument ''invalid TCP client configuration'')
      else Inr \<lparr>mRunning = False, mConnected = False, mPending = [], mResync = [], mHandler = False,
        worker = No_Thread, current = [], received = [], g_wire = [], g_bytes = [], g_lines = [],
        g_calls = []\<rparr>)"

section \<open>Operations of the caller\<close>

definition SetLineHandler :: "bool \<Rightarrow> Client \<Rightarrow> Client" where
  "SetLineHandler handler c = c\<lparr>mHandler := handler\<rparr>"

definition Start :: "Client \<Rightarrow> Client" where
  "Start c = (if mRunning c then c else c\<lparr>mRunning := True, worker := Connecting\<rparr>)"

text \<open>\<open>Stop\<close> up to the join, and after it.\<close>

definition Stop_request :: "Client \<Rightarrow> Client" where
  "Stop_request c = c\<lparr>mRunning := False\<rparr>"

definition Stop_joined :: "Client \<Rightarrow> Client" where
  "Stop_joined c = c\<lparr>mConnected := False\<rparr>"

definition QueueInitial :: "string \<Rightarrow> Client \<Rightarrow> Client" where
  "QueueInitial json c =
     c\<lparr>mResync := Normalize json, mPending := [Normalize json],
       g_calls := g_calls c @ [Call_Initial json]\<rparr>"

definition QueueDelta :: "TcpClientConfig \<Rightarrow> string \<Rightarrow> string \<Rightarrow> Client \<Rightarrow> bool \<times> Client" where
  "QueueDelta config json currentFullSnapshot c =
     (let c = c\<lparr>mResync := Normalize currentFullSnapshot,
                g_calls := g_calls c @ [Call_Delta json currentFullSnapshot]\<rparr> in
      if cfg_maxPendingMessages config \<le> length (mPending c)
      then (False, c\<lparr>mPending := [mResync c]\<rparr>)
      else (True, c\<lparr>mPending := mPending c @ [Normalize json]\<rparr>))"

definition PendingCount :: "Client \<Rightarrow> nat" where
  "PendingCount c = length (mPending c)"

definition IsConnected :: "Client \<Rightarrow> bool" where
  "IsConnected c = mConnected c"

section \<open>Steps of the worker\<close>

definition connected_step :: "Client \<Rightarrow> Client" where
  "connected_step c = c\<lparr>mConnected := True, worker := Opened\<rparr>"

text \<open>The first critical section of \<open>ProcessConnection\<close>: the snapshot goes first.\<close>

definition open_step :: "Client \<Rightarrow> Client" where
  "open_step c =
     c\<lparr>current := mResync c, mPending := [], received := [], worker := Serving,
       g_wire := [], g_bytes := []\<rparr>"

definition take_step :: "Client \<Rightarrow> Client" where
  "take_step c =
     (if current c = [] \<and> mPending c \<noteq> []
      then c\<lparr>current := hd (mPending c), mPending := tl (mPending c)\<rparr> else c)"

definition sent_step :: "string \<Rightarrow> Client \<Rightarrow> Client" where
  "sent_step out c = c\<lparr>current := [], g_wire := g_wire c @ [current c], g_bytes := g_bytes c @ out\<rparr>"

definition send_failed_step :: "string \<Rightarrow> Client \<Rightarrow> Client" where
  "send_failed_step out c =
     c\<lparr>mPending := current c # mPending c, worker := Closing, g_bytes := g_bytes c @ out\<rparr>"

definition max_received :: nat where
  "max_received = 10 * 1024 * 1024"

definition receive_step :: "string \<Rightarrow> Client \<Rightarrow> Client" where
  "receive_step bytes c =
     (let buffer = received c @ bytes in
      if max_received < length buffer then c\<lparr>received := buffer, worker := Closing\<rparr>
      else (let (ls, rest) = DispatchLines (mHandler c) buffer in
        c\<lparr>received := rest, g_lines := g_lines c @ ls\<rparr>))"

definition leave_step :: "Client \<Rightarrow> Client" where
  "leave_step c = c\<lparr>worker := Closing\<rparr>"

definition close_step :: "Client \<Rightarrow> Client" where
  "close_step c = c\<lparr>mConnected := False, worker := Connecting\<rparr>"

definition exit_step :: "Client \<Rightarrow> Client" where
  "exit_step c = c\<lparr>worker := No_Thread\<rparr>"

section \<open>A turn of the worker\<close>

text \<open>
  What \<open>WaitSocket\<close> and \<open>recv\<close> give in a turn: nothing in time, some bytes, the end of the
  connection, no bytes after all, or an error.
\<close>

datatype recv_event = No_Data | Data string | Peer_Closed | Recv_Would_Block | Recv_Error

definition receive_turn :: "recv_event \<Rightarrow> Client \<Rightarrow> Client" where
  "receive_turn event c =
     (case event of
        No_Data \<Rightarrow> c
      | Data bytes \<Rightarrow> receive_step bytes c
      | Peer_Closed \<Rightarrow> leave_step c
      | Recv_Would_Block \<Rightarrow> c
      | Recv_Error \<Rightarrow> leave_step c)"

text \<open>
  One turn of the loop of \<open>ProcessConnection\<close>, as a whole; \<^term>\<open>None\<close> while \<open>SendAll\<close> has not
  returned.
\<close>

definition serve_turn :: "io_event list \<Rightarrow> recv_event \<Rightarrow> Client \<Rightarrow> Client option" where
  "serve_turn events event c =
     (if \<not> mRunning c then Some (leave_step c)
      else
        (let c = take_step c in
         if current c \<noteq> [] then
           (case SendAll events (current c) 0 of
              (out, None) \<Rightarrow> None
            | (out, Some False) \<Rightarrow> Some (send_failed_step out c)
            | (out, Some True) \<Rightarrow> Some (receive_turn event (sent_step out c)))
         else Some (receive_turn event c)))"

section \<open>The step relation\<close>

text \<open>
  A thread is started only after the last one has been joined. Within one turn of its loop the
  worker takes, sends and receives; a failed connection attempt and the waits change nothing.
\<close>

inductive client_step :: "TcpClientConfig \<Rightarrow> Client \<Rightarrow> Client \<Rightarrow> bool" for config where
  set_handler: "client_step config c (SetLineHandler handler c)"
| start: "worker c = No_Thread \<Longrightarrow> client_step config c (Start c)"
| stop_request: "client_step config c (Stop_request c)"
| stop_joined: "worker c = No_Thread \<Longrightarrow> \<not> mRunning c \<Longrightarrow> client_step config c (Stop_joined c)"
| initial: "client_step config c (QueueInitial json c)"
| delta: "client_step config c (snd (QueueDelta config json snapshot c))"
| connected: "worker c = Connecting \<Longrightarrow> mRunning c \<Longrightarrow> fst (Connect config getaddrinfo) \<noteq> None \<Longrightarrow>
    client_step config c (connected_step c)"
| opened: "worker c = Opened \<Longrightarrow> client_step config c (open_step c)"
| take_next: "worker c = Serving \<Longrightarrow> client_step config c (take_step c)"
| sent: "worker c = Serving \<Longrightarrow> current c \<noteq> [] \<Longrightarrow>
    SendAll events (current c) 0 = (out, Some True) \<Longrightarrow> client_step config c (sent_step out c)"
| send_failed: "worker c = Serving \<Longrightarrow> current c \<noteq> [] \<Longrightarrow>
    SendAll events (current c) 0 = (out, Some False) \<Longrightarrow> client_step config c (send_failed_step out c)"
| receive: "worker c = Serving \<Longrightarrow> bytes \<noteq> [] \<Longrightarrow> length bytes \<le> 8192 \<Longrightarrow>
    client_step config c (receive_step bytes c)"
| leave: "worker c = Serving \<Longrightarrow> client_step config c (leave_step c)"
| close: "worker c = Closing \<Longrightarrow> client_step config c (close_step c)"
| exit: "worker c = Connecting \<Longrightarrow> \<not> mRunning c \<Longrightarrow> client_step config c (exit_step c)"

lemmas client_steps = SetLineHandler_def Start_def Stop_request_def Stop_joined_def QueueInitial_def
  QueueDelta_def connected_step_def open_step_def take_step_def sent_step_def send_failed_step_def
  receive_step_def leave_step_def close_step_def exit_step_def

text \<open>The states a client can reach from its construction.\<close>

inductive client_reachable :: "TcpClientConfig \<Rightarrow> Client \<Rightarrow> bool" for config where
  created: "new_client config = Inr c \<Longrightarrow> client_reachable config c"
| stepped: "client_reachable config c \<Longrightarrow> client_step config c c' \<Longrightarrow> client_reachable config c'"

inductive_cases client_step_elim: "client_step config c c'"

text \<open>A host that accepts the first connection attempt.\<close>

definition accepting_host :: "string \<Rightarrow> string \<Rightarrow> Answers list option" where
  "accepting_host host port = Some [\<lparr>os_socket = Some 3, os_getFlags = 0, os_setFlags = (\<lambda>_. 0), os_connect = 0,
     os_errno = Other_Error, os_select = (\<lambda>_ _. 0), os_sockopt = (0, 0)\<rparr>]"

lemma Connect_accepting_host: "Connect config accepting_host = (Some 3, [])"
  by (simp add: Connect_def accepting_host_def SetNonBlocking_def)

lemma connects: "worker c = Connecting \<Longrightarrow> mRunning c \<Longrightarrow> client_step config c (connected_step c)"
  using client_step.connected [of c config accepting_host] by (simp add: Connect_accepting_host)

end
