(* ===== verification/TcpFacts.thy ===== *)
theory TcpFacts
  imports TcpClient
begin

text \<open>
  What the client of \<open>TcpJsonlClient.cpp\<close> guarantees: framing of the bytes received and sent,
  the bound of its queue, and, over every interleaving of its two threads, that the messages
  of a connection start from a full snapshot and lead to the state last queued.
\<close>

section \<open>Connecting\<close>

text \<open>An address at which the attempt succeeds.\<close>

definition accepts :: "TcpClientConfig \<Rightarrow> Answers \<Rightarrow> bool" where
  "accepts config a \<longleftrightarrow> os_socket a \<noteq> None \<and> SetNonBlocking a \<and>
     (os_connect a = 0 \<or>
      WouldBlock (os_errno a) \<and> WaitSocket a True (cfg_connectTimeoutMs config) \<and> ConnectionSucceeded a)"

lemma connect_loop_first:
  "connect_loop config addresses =
    (let refused = takeWhile (\<lambda>a. \<not> accepts config a) addresses in
     (case drop (length refused) addresses of [] \<Rightarrow> None | a # _ \<Rightarrow> os_socket a,
      List.map_filter os_socket refused))"
proof (induction addresses)
  case Nil
  then show ?case by simp
next
  case (Cons a addresses)
  then show ?case
    by (cases "os_socket a") (auto simp: accepts_def CloseSocket_def Let_def)
qed

lemma timeval_exact:
  "1000000 * unat (fst (timeval ms)) + unat (snd (timeval ms)) = 1000 * unat ms \<and>
    snd (timeval ms) < 1000000"
proof -
  have parts: "1000 * q + r = n \<Longrightarrow> 1000000 * q + r * 1000 = 1000 * n" for q r n :: nat by simp
  have "unat (ms mod 1000) < 1000" by (simp add: unat_mod)
  then have "unat ((ms mod 1000) * 1000) = unat (ms mod 1000) * 1000"
    by (simp add: unat_mult_lem [THEN iffD1])
  moreover have "1000000 * (unat ms div 1000) + unat ms mod 1000 * 1000 = 1000 * unat ms"
    using parts [of "unat ms div 1000" "unat ms mod 1000" "unat ms"] by (simp only: mult_div_mod_eq)
  ultimately show ?thesis by (simp add: timeval_def unat_mod unat_div word_less_nat_alt)
qed

text \<open>
  C28. Connecting tries the resolved addresses in their order up to the first one that accepts,
  at once or within the time limit, and returns its handle, or none when all refuse. The
  handles of the sockets opened for the addresses before it, and no others, are closed, each
  once, so that no handle is lost and the one returned is open. The time limit given to
  \<open>select\<close> is the configured one, with less than a second of microseconds.
\<close>

theorem Connect_first_accepting:
  "Connect config getaddrinfo =
    (case getaddrinfo (cfg_host config) (show_nat (unat (cfg_port config))) of
       None \<Rightarrow> (None, [])
     | Some addresses \<Rightarrow>
         (let refused = takeWhile (\<lambda>a. \<not> accepts config a) addresses in
          (case drop (length refused) addresses of [] \<Rightarrow> None | a # _ \<Rightarrow> os_socket a,
           List.map_filter os_socket refused))) \<and>
    (let (seconds, micros) = timeval (cfg_connectTimeoutMs config) in
     1000000 * unat seconds + unat micros = 1000 * unat (cfg_connectTimeoutMs config) \<and> micros < 1000000)"
  using timeval_exact [of "cfg_connectTimeoutMs config"]
  by (simp add: Connect_def connect_loop_first case_prod_beta split: option.split)

section \<open>Lines\<close>

lemma Normalize_append: "json = [] \<or> last json \<notin> {carriage, newline} \<Longrightarrow> Normalize json = json @ [newline]"
  by (cases json rule: rev_cases) (auto simp: Normalize_def)

lemma Normalize_nonempty [simp]: "Normalize json \<noteq> []"
  by (simp add: Normalize_def)

text \<open>A text without line ends, as the protocol writers produce it.\<close>

definition one_line :: "string \<Rightarrow> bool" where
  "one_line s \<longleftrightarrow> newline \<notin> set s \<and> carriage \<notin> set s"

lemma Normalize_one_line: "one_line s \<Longrightarrow> Normalize s = s @ [newline]"
  by (rule Normalize_append) (metis last_in_set one_line_def insertE singletonD)

text \<open>What one line contributes to the handler's calls.\<close>

definition emit :: "bool \<Rightarrow> string \<Rightarrow> string list" where
  "emit hasHandler line =
     (let line' = (if line \<noteq> [] \<and> last line = carriage then butlast line else line) in
      if hasHandler \<and> line' \<noteq> [] then [line'] else [])"

lemma find_newline: "newline \<notin> set xs \<Longrightarrow> str_find [newline] (xs @ newline # ys) 0 = Some (length xs)"
  using find_prefix_skip [of newline xs "[]" "newline # ys"] by (simp add: str_find_def)

lemma find_no_newline: "newline \<notin> set xs \<Longrightarrow> str_find [newline] xs 0 = None"
  using find_prefix_skip [of newline xs "[]" "[]"] by (simp add: str_find_def)

lemma DispatchLines_none: "newline \<notin> set xs \<Longrightarrow> DispatchLines h xs = ([], xs)"
  by (simp add: DispatchLines.simps [of h xs] find_no_newline)

lemma DispatchLines_line:
  "newline \<notin> set xs \<Longrightarrow> DispatchLines h (xs @ newline # ys) =
    (emit h xs @ fst (DispatchLines h ys), snd (DispatchLines h ys))"
  by (simp add: DispatchLines.simps [of h "xs @ newline # ys"] find_newline substr_def emit_def Let_def
      split: prod.split)

lemma DispatchLines_append:
  "DispatchLines h (a @ b) =
    (fst (DispatchLines h a) @ fst (DispatchLines h (snd (DispatchLines h a) @ b)),
     snd (DispatchLines h (snd (DispatchLines h a) @ b)))"
proof (induction a rule: length_induct)
  case (1 a)
  show ?case
  proof (cases "newline \<in> set a")
    case False
    then show ?thesis by (simp add: DispatchLines_none)
  next
    case True
    then obtain xs ys where a: "a = xs @ newline # ys" "newline \<notin> set xs"
      by (metis split_list_first)
    from 1 a have "DispatchLines h (ys @ b) =
      (fst (DispatchLines h ys) @ fst (DispatchLines h (snd (DispatchLines h ys) @ b)),
       snd (DispatchLines h (snd (DispatchLines h ys) @ b)))" by simp
    then show ?thesis using a(2) by (simp add: a(1) DispatchLines_line)
  qed
qed

text \<open>What is kept after dispatching is the end of the buffer from its last newline on.\<close>

lemma DispatchLines_rest: "newline \<notin> set (snd (DispatchLines h xs)) \<and> suffix (snd (DispatchLines h xs)) xs"
proof (induction xs rule: length_induct)
  case (1 xs)
  show ?case
  proof (cases "newline \<in> set xs")
    case True
    then obtain us vs where xs: "xs = us @ newline # vs" "newline \<notin> set us" by (metis split_list_first)
    with 1 have "newline \<notin> set (snd (DispatchLines h vs))" "suffix (snd (DispatchLines h vs)) vs" by simp_all
    with xs show ?thesis by (metis DispatchLines_line snd_conv suffix_ConsI suffix_appendI)
  qed (simp add: DispatchLines_none)
qed

text \<open>Successive reads of one connection, as long as the worker serves it.\<close>

definition receive_reads :: "string list \<Rightarrow> Client \<Rightarrow> Client" where
  "receive_reads reads c = fold (\<lambda>bytes c. if worker c = Serving then receive_step bytes c else c) reads c"

lemma receive_reads_Cons:
  "worker c = Serving \<Longrightarrow> receive_reads (bytes # reads) c = receive_reads reads (receive_step bytes c)"
  by (simp add: receive_reads_def)

lemma receive_reads_closed: "worker c \<noteq> Serving \<Longrightarrow> receive_reads reads c = c"
  by (induction reads) (simp_all add: receive_reads_def)

text \<open>No line, complete or not, comes so close to the limit that a read can exceed it.\<close>

definition lines_fit :: "string \<Rightarrow> bool" where
  "lines_fit s \<longleftrightarrow> (\<forall>ys. sublist ys s \<longrightarrow> newline \<notin> set ys \<longrightarrow> length ys + 8192 \<le> max_received)"

lemma lines_fit_sublist: "lines_fit s \<Longrightarrow> sublist t s \<Longrightarrow> lines_fit t"
  unfolding lines_fit_def using sublist_order.order_trans by blast

lemma receive_reads_lines:
  assumes "worker c = Serving" and "newline \<notin> set (received c)" and "list_all (\<lambda>bytes. length bytes \<le> 8192) reads"
    and "DispatchLines (mHandler c) (received c @ concat reads) = (ls, rest)"
  shows "prefix (g_lines (receive_reads reads c)) (g_lines c @ ls) \<and>
    (worker (receive_reads reads c) = Serving \<longrightarrow>
      receive_reads reads c = c\<lparr>received := rest, g_lines := g_lines c @ ls\<rparr>) \<and>
    (lines_fit (received c @ concat reads) \<longrightarrow> worker (receive_reads reads c) = Serving)"
  using assms
proof (induction reads arbitrary: c ls)
  case Nil
  then show ?case by (simp add: receive_reads_def DispatchLines_none)
next
  case (Cons bytes reads)
  note run = receive_reads_Cons [OF Cons.prems(1), of bytes reads]
  let ?buffer = "received c @ bytes"
  show ?case
  proof (cases "max_received < length ?buffer")
    case True
    then have closed: "receive_step bytes c = c\<lparr>received := ?buffer, worker := Closing\<rparr>" by (simp add: receive_step_def)
    have "\<not> lines_fit (received c @ concat (bytes # reads))"
    proof
      assume "lines_fit (received c @ concat (bytes # reads))"
      then have "length (received c) + 8192 \<le> max_received"
        using Cons.prems(2) unfolding lines_fit_def by (meson sublist_appendI sublist_append_rightI)
      with True Cons.prems(3) show False by simp
    qed
    then show ?thesis unfolding run closed by (simp add: receive_reads_closed)
  next
    case False
    obtain ls1 rest1 where d: "DispatchLines (mHandler c) ?buffer = (ls1, rest1)" by (rule prod.exhaust)
    then have rest1: "newline \<notin> set rest1" "suffix rest1 ?buffer"
      using DispatchLines_rest [of "mHandler c" ?buffer] by simp_all
    let ?c = "c\<lparr>received := rest1, g_lines := g_lines c @ ls1\<rparr>"
    have step: "receive_step bytes c = ?c" using False by (simp add: receive_step_def d)
    obtain ls2 where ls2: "DispatchLines (mHandler ?c) (received ?c @ concat reads) = (ls2, rest)" "ls = ls1 @ ls2"
      using DispatchLines_append [of "mHandler c" ?buffer "concat reads"] Cons.prems(4)
      by (cases "DispatchLines (mHandler c) (rest1 @ concat reads)") (simp add: d)
    obtain used where "?buffer = used @ rest1" using rest1(2) by (auto simp: suffix_def)
    then have "received c @ concat (bytes # reads) = used @ (rest1 @ concat reads)" by simp
    then have "sublist (rest1 @ concat reads) (received c @ concat (bytes # reads))"
      using sublist_append_leftI by metis
    then have "lines_fit (received ?c @ concat reads)" if "lines_fit (received c @ concat (bytes # reads))"
      using lines_fit_sublist [OF that] by simp
    then show ?thesis
      using Cons.IH [OF _ _ _ ls2(1)] Cons.prems(1,3) rest1(1) unfolding run step by (simp add: ls2(2))
  qed
qed

lemma DispatchLines_messages:
  "list_all (\<lambda>m. one_line m \<and> m \<noteq> []) ms \<Longrightarrow> DispatchLines True (concat (map Normalize ms)) = (ms, [])"
proof (induction ms)
  case Nil
  then show ?case by (simp add: DispatchLines_none)
next
  case (Cons m ms)
  then have m: "m \<noteq> []" "newline \<notin> set m" "carriage \<notin> set m" by (auto simp: one_line_def)
  then have "last m \<noteq> carriage" by (metis last_in_set)
  with Cons m show ?case by (simp add: Normalize_one_line DispatchLines_line emit_def)
qed

lemma newline_free_sublist:
  assumes "newline \<notin> set ys" and "sublist ys (m @ newline # t)"
  shows "sublist ys m \<or> sublist ys t"
proof -
  obtain us vs where eq: "us @ ys @ vs = m @ newline # t" using assms(2) by (metis sublist_def)
  then consider (left) w where "us @ ys @ w = m" "vs = w @ newline # t"
    | (right) w where "us = m @ newline # w" "w @ ys @ vs = t"
    using assms(1) by (auto simp: append_eq_append_conv2 append_eq_Cons_conv Cons_eq_append_conv)
  then show ?thesis by cases (auto simp: sublist_def)
qed

lemma lines_fit_messages:
  "list_all (\<lambda>m. one_line m \<and> m \<noteq> [] \<and> length m + 8192 \<le> max_received) ms \<Longrightarrow>
    lines_fit (concat (map Normalize ms))"
proof (induction ms)
  case Nil
  then show ?case by (simp add: lines_fit_def max_received_def)
next
  case (Cons m ms)
  then have m: "one_line m" "m \<noteq> []" "length m + 8192 \<le> max_received" and ms: "lines_fit (concat (map Normalize ms))"
    by simp_all
  show ?case unfolding lines_fit_def
  proof (intro allI impI)
    fix ys
    assume ys: "sublist ys (concat (map Normalize (m # ms)))" "newline \<notin> set ys"
    then have "sublist ys (m @ newline # concat (map Normalize ms))" using m(1,2) by (simp add: Normalize_one_line)
    from newline_free_sublist [OF ys(2) this] show "length ys + 8192 \<le> max_received"
      using m(3) ms ys(2) by (auto simp: lines_fit_def dest: sublist_length_le)
  qed
qed

text \<open>
  C26. How TCP cuts the incoming bytes into reads does not matter. Over any reads of a served
  connection, what the handler gets is a prefix of the lines of all the bytes taken together; while
  the connection is served it is exactly these lines, and the rest is kept. The connection is closed
  for the limit of 10 MiB only when a line comes within one read of it: it stays served when every line,
  complete or not, is shorter than the limit by 8192 bytes. In particular sent messages of that
  size come back as their texts, each once and in order.
\<close>

theorem lines_independent_of_reads:
  assumes "worker c = Serving" and "newline \<notin> set (received c)" and "list_all (\<lambda>bytes. length bytes \<le> 8192) reads"
  shows "let c' = receive_reads reads c; stream = received c @ concat reads;
      (ls, rest) = DispatchLines (mHandler c) stream in
    prefix (g_lines c') (g_lines c @ ls) \<and>
    (worker c' = Serving \<longrightarrow> c' = c\<lparr>received := rest, g_lines := g_lines c @ ls\<rparr>) \<and>
    (lines_fit stream \<longrightarrow> worker c' = Serving) \<and>
    (mHandler c \<longrightarrow> stream = concat (map Normalize ms) \<longrightarrow>
      list_all (\<lambda>m. one_line m \<and> m \<noteq> [] \<and> length m + 8192 \<le> max_received) ms \<longrightarrow>
      c' = c\<lparr>received := [], g_lines := g_lines c @ ms\<rparr>)"
proof -
  obtain ls rest where d: "DispatchLines (mHandler c) (received c @ concat reads) = (ls, rest)" by (rule prod.exhaust)
  note lines = receive_reads_lines [OF assms d]
  have "receive_reads reads c = c\<lparr>received := [], g_lines := g_lines c @ ms\<rparr>"
    if "mHandler c" "received c @ concat reads = concat (map Normalize ms)"
      "list_all (\<lambda>m. one_line m \<and> m \<noteq> [] \<and> length m + 8192 \<le> max_received) ms"
  proof -
    have "list_all (\<lambda>m. one_line m \<and> m \<noteq> []) ms" using that(3) by (simp add: list_all_iff)
    from DispatchLines_messages [OF this] have "ls = ms" "rest = []" using d that(1,2) by simp_all
    with lines lines_fit_messages [OF that(3)] that(2) show ?thesis by simp
  qed
  with lines d show ?thesis by (simp add: Let_def)
qed

text \<open>Two messages in three reads that cut them anywhere.\<close>

definition served_client :: Client where
  "served_client = \<lparr>mRunning = True, mConnected = True, mPending = [], mResync = [], mHandler = True,
     worker = Serving, current = [], received = [], g_wire = [], g_bytes = [], g_lines = [], g_calls = []\<rparr>"

theorem lines_independent_of_reads_witness:
  "g_lines (receive_reads [''ab'', [newline, CHR ''c''], [newline]] served_client) = [''ab'', ''c'']"
proof -
  have c: "worker served_client = Serving" "newline \<notin> set (received served_client)" "mHandler served_client"
    "received served_client = []" "g_lines served_client = []"
    by (simp_all add: served_client_def)
  have reads: "list_all (\<lambda>bytes. length bytes \<le> 8192) [''ab'', [newline, CHR ''c''], [newline]]" by simp
  have ms: "list_all (\<lambda>m. one_line m \<and> m \<noteq> [] \<and> length m + 8192 \<le> max_received) [''ab'', ''c'']"
    by (simp add: one_line_def max_received_def)
  have "concat [''ab'', [newline, CHR ''c''], [newline]] = concat (map Normalize [''ab'', ''c''])"
    by (simp add: Normalize_def)
  with lines_independent_of_reads [OF c(1,2) reads, of "[''ab'', ''c'']"] c(3-5) ms
  show ?thesis by (simp add: Let_def case_prod_beta)
qed

section \<open>Sending one message\<close>

lemma SendAll_prefix:
  "SendAll events message sent = (out, r) \<Longrightarrow> prefix out (drop sent message) \<and>
    (r = Some True \<longrightarrow> out = drop sent message) \<and> (r = Some False \<longrightarrow> strict_prefix out (drop sent message))"
proof (induction events message sent arbitrary: out rule: SendAll.induct)
  case (1 message sent)
  then show ?case by (auto split: if_splits)
next
  case (2 event events message sent)
  show ?case
  proof (cases "sent < length message")
    case False
    with 2(3) show ?thesis by auto
  next
    case True
    then have drop: "drop sent message \<noteq> []" by simp
    show ?thesis
    proof (cases event)
      case (Sent n)
      obtain out' where rest: "SendAll events message (sent + n) = (out', r)"
        and out: "out = take n (drop sent message) @ out'"
        using 2(3) True Sent by (auto split: prod.splits)
      have "drop sent message = take n (drop sent message) @ drop (sent + n) message"
        by (metis append_take_drop_id drop_drop add.commute)
      then have "prefix out (drop sent message) \<longleftrightarrow> prefix out' (drop (sent + n) message)"
        "out = drop sent message \<longleftrightarrow> out' = drop (sent + n) message"
        unfolding out by (metis same_prefix_prefix, metis same_append_eq)
      then show ?thesis
        using 2(1) [OF True Sent rest] by (auto simp: strict_prefix_def)
    qed (use 2 True drop in \<open>auto simp: strict_prefix_def\<close>)
  qed
qed

lemma SendAll_enough:
  "list_all (\<lambda>e. e = Would_Block \<or> (\<exists>n. e = Sent n \<and> 0 < n)) events \<Longrightarrow>
    length message - sent \<le> length (filter (\<lambda>e. e \<noteq> Would_Block) events) \<Longrightarrow>
    snd (SendAll events message sent) = Some True"
proof (induction events message sent rule: SendAll.induct)
  case (1 message sent)
  then show ?case by simp
next
  case (2 event events message sent)
  show ?case
  proof (cases event)
    case (Sent n)
    then show ?thesis using 2 by (auto split: prod.split)
  qed (use 2 in auto)
qed

text \<open>
  C27. Sending a message puts a prefix of it on the network, in order and without gaps: the
  whole message exactly when \<open>SendAll\<close> returns true, a proper part when it returns false. It
  returns true when the socket keeps accepting bytes, however few at a time.
\<close>

theorem SendAll_sends_message:
  "(SendAll events message 0 = (out, r) \<longrightarrow> prefix out message \<and> (r = Some True \<longrightarrow> out = message) \<and>
     (r = Some False \<longrightarrow> strict_prefix out message)) \<and>
   (list_all (\<lambda>e. e = Would_Block \<or> (\<exists>n. e = Sent n \<and> 0 < n)) events \<longrightarrow>
     length message \<le> length (filter (\<lambda>e. e \<noteq> Would_Block) events) \<longrightarrow>
     SendAll events message 0 = (message, Some True))"
proof -
  have "snd (SendAll events message 0) = Some True \<Longrightarrow> SendAll events message 0 = (message, Some True)"
    using SendAll_prefix [of events message 0] by (cases "SendAll events message 0") auto
  then show ?thesis
    using SendAll_prefix [of events message 0 out r] SendAll_enough [of events message 0] by auto
qed

theorem SendAll_sends_message_witness:
  "SendAll [Sent 1, Would_Block, Sent 2, Sent 1] ''abc'' 0 = (''abc'', Some True)"
  using SendAll_sends_message [of "[Sent 1, Would_Block, Sent 2, Sent 1]" "''abc''"] by simp

section \<open>The queue is bounded\<close>

definition queue_bounded :: "TcpClientConfig \<Rightarrow> Client \<Rightarrow> bool" where
  "queue_bounded config c \<longleftrightarrow>
     length (mPending c) \<le> cfg_maxPendingMessages config + (if worker c = Serving then 0 else 1)"

lemma queue_bounded_step:
  assumes "client_step config c c'" and "queue_bounded config c" and "0 < cfg_maxPendingMessages config"
  shows "queue_bounded config c'"
  using assms by (cases rule: client_step.cases)
    (auto simp: client_steps queue_bounded_def Let_def split: prod.split if_splits)

lemma reachable_positive: "client_reachable config c \<Longrightarrow> 0 < cfg_maxPendingMessages config"
  by (induction rule: client_reachable.induct) (auto simp: new_client_def split: if_splits)

lemma queue_bounded_reachable: "client_reachable config c \<Longrightarrow> queue_bounded config c"
proof (induction rule: client_reachable.induct)
  case (created c)
  then show ?case by (auto simp: new_client_def queue_bounded_def split: if_splits)
next
  case (stepped c c')
  then show ?case using queue_bounded_step reachable_positive by blast
qed

text \<open>
  C29. In every reachable state the queue holds at most the configured number of messages, and
  one others while no connection is being served: a message whose sending failed is put back.
\<close>

theorem pending_bound:
  assumes "client_reachable config c"
  shows "PendingCount c \<le> cfg_maxPendingMessages config + 1 \<and>
    (worker c = Serving \<longrightarrow> PendingCount c \<le> cfg_maxPendingMessages config)"
  using queue_bounded_reachable [OF assms] by (simp add: queue_bounded_def PendingCount_def split: if_splits)

definition small_config :: TcpClientConfig where
  "small_config = default_config\<lparr>cfg_host := ''h'', cfg_maxPendingMessages := 1\<rparr>"

text \<open>A run in which the bound is met: one message fails to be sent while another waits.\<close>

definition overfull_client :: Client where
  "overfull_client = send_failed_step [] (snd (QueueDelta small_config ''d'' ''s'' (open_step
     (connected_step (Start (QueueInitial ''i'' (projr (new_client small_config))))))))"

lemma overfull_reachable: "client_reachable small_config overfull_client"
proof -
  let ?c0 = "projr (new_client small_config)"
  have "client_reachable small_config ?c0"
    by (rule created) (simp add: new_client_def small_config_def default_config_def)
  then have "client_reachable small_config (QueueInitial ''i'' ?c0)" by (rule stepped) (rule initial)
  then have "client_reachable small_config (Start (QueueInitial ''i'' ?c0))"
    by (rule stepped) (rule start,
      simp add: new_client_def small_config_def default_config_def QueueInitial_def)
  then have "client_reachable small_config (connected_step (Start (QueueInitial ''i'' ?c0)))"
    by (rule stepped) (rule connects,
      simp_all add: new_client_def small_config_def default_config_def QueueInitial_def Start_def)
  then have "client_reachable small_config (open_step (connected_step (Start (QueueInitial ''i'' ?c0))))"
    by (rule stepped) (rule opened, simp add: connected_step_def)
  then have "client_reachable small_config (snd (QueueDelta small_config ''d'' ''s''
      (open_step (connected_step (Start (QueueInitial ''i'' ?c0))))))"
    by (rule stepped) (rule delta)
  then show ?thesis unfolding overfull_client_def
    by (rule stepped) (rule send_failed [of _ "[Wait_Timeout]"],
      simp_all add: new_client_def small_config_def default_config_def client_steps Let_def)
qed

theorem pending_bound_witness:
  "PendingCount overfull_client = cfg_maxPendingMessages small_config + 1 \<and>
   PendingCount overfull_client \<le> cfg_maxPendingMessages small_config + 1"
  using pending_bound [OF overfull_reachable]
  by (simp add: overfull_client_def PendingCount_def new_client_def small_config_def default_config_def
      client_steps Let_def)

section \<open>The order of a turn\<close>

text \<open>
  A turn of the worker, in the order of the source, is a sequence of steps of the relation, in
  which the caller's operations may come in between.
\<close>

definition readable_event :: "recv_event \<Rightarrow> bool" where
  "readable_event event \<longleftrightarrow> (case event of Data bytes \<Rightarrow> bytes \<noteq> [] \<and> length bytes \<le> 8192 | _ \<Rightarrow> True)"

lemma receive_turn_steps:
  "worker c = Serving \<Longrightarrow> readable_event event \<Longrightarrow> (client_step config)\<^sup>*\<^sup>* c (receive_turn event c)"
  using client_step.receive [of c _ config] client_step.leave [of c config]
  by (cases event) (auto simp: receive_turn_def readable_event_def)

lemma serve_turn_steps:
  assumes "worker c = Serving" and "readable_event event" and "serve_turn events event c = Some c'"
  shows "(client_step config)\<^sup>*\<^sup>* c c'"
proof (cases "mRunning c")
  case False
  then have "c' = leave_step c" using assms(3) by (simp add: serve_turn_def)
  then show ?thesis using client_step.leave [OF assms(1)] by auto
next
  case True
  let ?c = "take_step c"
  have taken: "client_step config c ?c" "worker ?c = Serving"
    using client_step.take_next [OF assms(1)] assms(1) by (simp_all add: take_step_def)
  obtain out r where send: "SendAll events (current ?c) 0 = (out, r)" by (cases "SendAll events (current ?c) 0")
  have "(client_step config)\<^sup>*\<^sup>* ?c c'"
  proof (cases "current ?c = []")
    case True
    then have "c' = receive_turn event ?c" using assms(3) \<open>mRunning c\<close> by (simp add: serve_turn_def Let_def)
    then show ?thesis using receive_turn_steps [OF taken(2) assms(2)] by simp
  next
    case False
    then consider "r = Some False" "c' = send_failed_step out ?c"
      | "r = Some True" "c' = receive_turn event (sent_step out ?c)"
      using assms(3) \<open>mRunning c\<close> send by (auto simp: serve_turn_def Let_def split: option.splits bool.splits)
    then show ?thesis
    proof cases
      case 1
      then show ?thesis using client_step.send_failed [OF taken(2) False] send by auto
    next
      case 2
      have "client_step config ?c (sent_step out ?c)" "worker (sent_step out ?c) = Serving"
        using client_step.sent [OF taken(2) False] send 2(1) taken(2) by (auto simp: sent_step_def)
      then show ?thesis
        using receive_turn_steps [OF _ assms(2)] 2(2) by (blast intro: converse_rtranclp_into_rtranclp)
    qed
  qed
  with taken(1) show ?thesis by (blast intro: converse_rtranclp_into_rtranclp)
qed

end
