(* ===== verification/TcpStream.thy ===== *)
theory TcpStream
  imports TcpFacts
begin

text \<open>
  What the messages of one connection amount to. Position \<open>n\<close> in the history of queueing calls
  stands for the state after the first \<open>n\<close> calls. A full snapshot brings a receiver to the
  position of its call from anywhere; a delta brings it from the position before its call to
  the one after. The invariant, over every interleaving of the two threads: what was sent on
  the connection, what is being sent and what waits in the queue lead to the last call.
\<close>

section \<open>Streams that cover a history\<close>

fun snapshot_of :: "queue_call \<Rightarrow> string" where
  "snapshot_of (Call_Initial json) = Normalize json"
| "snapshot_of (Call_Delta json snapshot) = Normalize snapshot"

text \<open>\<open>covers calls xs n\<close>: the messages \<open>xs\<close> bring a receiver to position \<open>n\<close>.\<close>

inductive covers :: "queue_call list \<Rightarrow> string list \<Rightarrow> nat \<Rightarrow> bool" for calls where
  first: "0 < n \<Longrightarrow> n \<le> length calls \<Longrightarrow> covers calls [snapshot_of (calls ! (n - 1))] n"
| again: "covers calls xs m \<Longrightarrow> m \<le> n \<Longrightarrow> n \<le> length calls \<Longrightarrow>
    covers calls (xs @ [snapshot_of (calls ! (n - 1))]) n"
| change: "covers calls xs n \<Longrightarrow> n < length calls \<Longrightarrow> calls ! n = Call_Delta json snapshot \<Longrightarrow>
    covers calls (xs @ [Normalize json]) (n + 1)"

lemma covers_bounds: "covers calls xs n \<Longrightarrow> 0 < n \<and> n \<le> length calls"
  by (induction rule: covers.induct) auto

lemma covers_more_calls: "covers calls xs n \<Longrightarrow> covers (calls @ later) xs n"
proof (induction rule: covers.induct)
  case (first n)
  then have "n - 1 < length calls" by linarith
  then show ?case using covers.first [of n "calls @ later"] first by (simp add: nth_append)
next
  case (again xs m n)
  then have "n - 1 < length calls" using covers_bounds [of calls xs m] by linarith
  then show ?case using covers.again [OF again.IH, of n] again by (simp add: nth_append)
next
  case (change xs n json snapshot)
  then show ?case using covers.change [OF change.IH, of json snapshot] by (simp add: nth_append)
qed

lemma covers_prefix: "covers calls (xs @ ys) n \<Longrightarrow> xs = [] \<or> (\<exists>m \<le> n. covers calls xs m)"
proof (induction ys arbitrary: n rule: rev_induct)
  case Nil
  then show ?case by auto
next
  case (snoc y ys)
  from snoc.prems have "covers calls ((xs @ ys) @ [y]) n" by simp
  then have "xs @ ys = [] \<or> (\<exists>m \<le> n. covers calls (xs @ ys) m)"
    by (cases rule: covers.cases) (auto intro: le_SucI)
  then show ?case using snoc.IH order_trans by blast
qed

text \<open>A snapshot after anything that was covered, for the newest call.\<close>

lemma covers_resync:
  assumes "xs = [] \<or> (\<exists>m. covers calls xs m)" and "calls \<noteq> []"
  shows "covers calls (xs @ [snapshot_of (last calls)]) (length calls)"
  using assms(1)
proof
  assume "xs = []"
  then show ?thesis using first [of "length calls" calls] assms(2) by (simp add: last_conv_nth)
next
  assume "\<exists>m. covers calls xs m"
  then show ?thesis
    using again [of calls xs _ "length calls"] covers_bounds assms(2) by (auto simp: last_conv_nth)
qed

section \<open>The invariant\<close>

definition messages :: "Client \<Rightarrow> string list" where
  "messages c = g_wire c @ (if current c = [] then [] else [current c]) @ mPending c"

definition starts_with_snapshot :: "queue_call list \<Rightarrow> bool" where
  "starts_with_snapshot calls \<longleftrightarrow> (case calls of [] \<Rightarrow> True | Call_Initial _ # _ \<Rightarrow> True | _ \<Rightarrow> False)"

definition stream_ok :: "Client \<Rightarrow> bool" where
  "stream_ok c \<longleftrightarrow>
     [] \<notin> set (mPending c) \<and>
     mResync c = (if g_calls c = [] then [] else snapshot_of (last (g_calls c))) \<and>
     (worker c = Serving \<longrightarrow>
       (if g_calls c = [] then messages c = []
        else covers (g_calls c) (messages c) (length (g_calls c))))"

lemma starts_with_snapshot_prefix: "starts_with_snapshot (calls @ later) \<Longrightarrow> starts_with_snapshot calls"
  by (cases calls) (auto simp: starts_with_snapshot_def)

lemma g_calls_step: "client_step config c c' \<Longrightarrow> \<exists>later. g_calls c' = g_calls c @ later"
  by (cases rule: client_step.cases, assumption) (auto simp: client_steps Let_def split: prod.split)

lemma messages_prefix_covered:
  assumes "stream_ok c" and "worker c = Serving"
  shows "g_wire c @ (if current c = [] then [] else [current c]) = [] \<or>
    (\<exists>m. covers (g_calls c) (g_wire c @ (if current c = [] then [] else [current c])) m)"
proof (cases "g_calls c = []")
  case True
  then show ?thesis using assms by (simp add: stream_ok_def messages_def)
next
  case False
  then have "covers (g_calls c) ((g_wire c @ (if current c = [] then [] else [current c])) @ mPending c)
      (length (g_calls c))"
    using assms by (simp add: stream_ok_def messages_def)
  then show ?thesis using covers_prefix by blast
qed

text \<open>Replacing the queue by the newest snapshot.\<close>

lemma stream_ok_resync:
  assumes "stream_ok c" and "g_calls c' = g_calls c @ [call]" and "mResync c' = snapshot_of call"
    and "mPending c' = [snapshot_of call]" and "snapshot_of call \<noteq> []"
    and "g_wire c' = g_wire c" "current c' = current c" "worker c' = worker c"
  shows "stream_ok c'"
proof -
  let ?sent = "g_wire c @ (if current c = [] then [] else [current c])"
  have "covers (g_calls c') (?sent @ [snapshot_of (last (g_calls c'))]) (length (g_calls c'))"
    if "worker c = Serving"
    using messages_prefix_covered [OF assms(1) that] covers_more_calls [of "g_calls c" ?sent _ "[call]"]
    by (intro covers_resync) (auto simp: assms(2) simp del: append_is_Nil_conv split del: if_split)
  then show ?thesis
    using assms(2-) by (auto simp: stream_ok_def messages_def split: if_splits)
qed

lemma snapshot_nonempty [simp]: "snapshot_of call \<noteq> []"
  by (cases call) simp_all

lemma stream_ok_frame:
  assumes "stream_ok c" and "mPending c' = mPending c" "mResync c' = mResync c" "g_calls c' = g_calls c"
    "current c' = current c" "g_wire c' = g_wire c" and "worker c' = Serving \<longrightarrow> worker c = Serving"
  shows "stream_ok c'"
proof -
  have "messages c' = messages c" using assms by (simp add: messages_def)
  then show ?thesis using assms(1,7) unfolding stream_ok_def assms(2-4) by auto
qed

lemma stream_ok_frames:
  assumes "stream_ok c"
  shows "stream_ok (SetLineHandler handler c)" "stream_ok (Start c)" "stream_ok (Stop_request c)"
    "stream_ok (Stop_joined c)" "stream_ok (connected_step c)" "stream_ok (receive_step bytes c)"
    "stream_ok (leave_step c)" "stream_ok (close_step c)" "stream_ok (exit_step c)"
  by (rule stream_ok_frame [OF assms]; simp add: client_steps Let_def split: prod.split)+

lemma stream_ok_send_failed: "stream_ok c \<Longrightarrow> current c \<noteq> [] \<Longrightarrow> stream_ok (send_failed_step out c)"
  by (auto simp: send_failed_step_def stream_ok_def)

lemma stream_ok_QueueInitial: "stream_ok c \<Longrightarrow> stream_ok (QueueInitial json c)"
  by (rule stream_ok_resync [of c _ "Call_Initial json"]) (simp_all add: QueueInitial_def)

lemma stream_ok_QueueDelta:
  assumes "stream_ok c" and "g_calls c \<noteq> []"
  shows "stream_ok (snd (QueueDelta config json snapshot c))"
proof (cases "cfg_maxPendingMessages config \<le> length (mPending c)")
  case True
  then show ?thesis
    by (intro stream_ok_resync [OF assms(1), of _ "Call_Delta json snapshot"]) (simp_all add: QueueDelta_def)
next
  case False
  let ?calls = "g_calls c @ [Call_Delta json snapshot]"
  have "covers ?calls (messages c @ [Normalize json]) (length (g_calls c) + 1)" if "worker c = Serving"
    using that assms covers.change [OF covers_more_calls, of "g_calls c" "messages c" "length (g_calls c)"]
    by (auto simp: stream_ok_def)
  moreover have "[] \<noteq> Normalize json" using Normalize_nonempty [of json] by metis
  ultimately show ?thesis using assms False by (auto simp: QueueDelta_def stream_ok_def messages_def)
qed

lemma stream_ok_open: "stream_ok c \<Longrightarrow> stream_ok (open_step c)"
  using covers_resync [of "[]" "g_calls c"] snapshot_nonempty [of "last (g_calls c)"]
  by (auto simp: open_step_def stream_ok_def messages_def)

lemma stream_ok_take: "stream_ok c \<Longrightarrow> stream_ok (take_step c)"
  by (cases "mPending c") (auto simp: take_step_def stream_ok_def messages_def)

lemma stream_ok_sent: "stream_ok c \<Longrightarrow> current c \<noteq> [] \<Longrightarrow> stream_ok (sent_step out c)"
  by (auto simp: sent_step_def stream_ok_def messages_def)

lemma stream_ok_step:
  assumes "client_step config c c'" and "stream_ok c" and "starts_with_snapshot (g_calls c')"
  shows "stream_ok c'"
  using assms(1)
proof (cases rule: client_step.cases)
  case (delta json snapshot)
  then have "g_calls c \<noteq> []"
    using assms(3) by (auto simp: QueueDelta_def Let_def starts_with_snapshot_def split: if_splits)
  then show ?thesis using delta assms(2) stream_ok_QueueDelta by blast
qed (simp_all add: assms(2) stream_ok_frames stream_ok_QueueInitial stream_ok_open stream_ok_take
    stream_ok_sent stream_ok_send_failed)

lemma stream_ok_reachable:
  "client_reachable config c \<Longrightarrow> starts_with_snapshot (g_calls c) \<Longrightarrow> stream_ok c"
proof (induction rule: client_reachable.induct)
  case (created c)
  then show ?case by (auto simp: new_client_def stream_ok_def split: if_splits)
next
  case (stepped c c')
  moreover obtain later where "g_calls c' = g_calls c @ later" using g_calls_step stepped.hyps by blast
  ultimately show ?case
    using stream_ok_step [OF stepped.hyps(2)] starts_with_snapshot_prefix by metis
qed

text \<open>
  C6. Lossless recovery: whenever a connection is being served, however often the one before
  it broke and whatever was lost, overflowed or queued meanwhile, the messages sent on it so
  far, the one in hand and those waiting start with a full snapshot and lead a receiver to
  the last state queued. Once nothing waits, the messages already sent do.
\<close>

theorem connection_covers_history:
  assumes "client_reachable config c" and "starts_with_snapshot (g_calls c)"
    and "worker c = Serving" and "g_calls c \<noteq> []"
  shows "covers (g_calls c) (messages c) (length (g_calls c)) \<and>
    (current c = [] \<longrightarrow> mPending c = [] \<longrightarrow> covers (g_calls c) (g_wire c) (length (g_calls c)))"
  using stream_ok_reachable [OF assms(1,2)] assms(3,4)
  by (auto simp: stream_ok_def messages_def)

text \<open>A client that has lost a connection, overflowed, reconnected and sent its snapshot.\<close>

definition recovered_client :: Client where
  "recovered_client = sent_step [CHR ''s'', newline] (open_step (connected_step (close_step overfull_client)))"

lemma overfull_eval:
  "worker overfull_client = Closing" "mRunning overfull_client" "mResync overfull_client = [CHR ''s'', newline]"
  "g_calls overfull_client = [Call_Initial ''i'', Call_Delta ''d'' ''s'']"
  by (simp_all add: overfull_client_def new_client_def small_config_def default_config_def client_steps
      Normalize_def Let_def)

lemma recovered_reachable: "client_reachable small_config recovered_client"
proof -
  have "client_reachable small_config (close_step overfull_client)"
    using overfull_reachable by (rule stepped) (rule close, rule overfull_eval)
  then have "client_reachable small_config (connected_step (close_step overfull_client))"
    by (rule stepped) (rule connects, simp_all add: close_step_def overfull_eval)
  then have "client_reachable small_config (open_step (connected_step (close_step overfull_client)))"
    by (rule stepped) (rule opened, simp add: connected_step_def)
  then show ?thesis
    unfolding recovered_client_def
    by (rule stepped) (rule sent [of _ "[Sent 2]"],
      simp_all add: open_step_def connected_step_def close_step_def overfull_eval)
qed

theorem connection_covers_history_witness:
  "covers [Call_Initial ''i'', Call_Delta ''d'' ''s''] (g_wire recovered_client) 2"
proof -
  have "g_calls recovered_client = [Call_Initial ''i'', Call_Delta ''d'' ''s'']"
    "worker recovered_client = Serving" "current recovered_client = []" "mPending recovered_client = []"
    by (simp_all add: recovered_client_def sent_step_def open_step_def connected_step_def close_step_def
        overfull_eval)
  then show ?thesis
    using connection_covers_history [OF recovered_reachable] by (simp add: starts_with_snapshot_def numeral_2_eq_2)
qed

section \<open>The bytes of a connection\<close>

definition plain_text :: "string \<Rightarrow> bool" where
  "plain_text s \<longleftrightarrow> one_line s \<and> s \<noteq> []"

fun plain_call :: "queue_call \<Rightarrow> bool" where
  "plain_call (Call_Initial json) = plain_text json"
| "plain_call (Call_Delta json snapshot) = (plain_text json \<and> plain_text snapshot)"

definition line_message :: "string \<Rightarrow> bool" where
  "line_message m \<longleftrightarrow> (\<exists>s. plain_text s \<and> m = s @ [newline])"

definition bytes_ok :: "Client \<Rightarrow> bool" where
  "bytes_ok c \<longleftrightarrow>
     list_all line_message (g_wire c) \<and> list_all line_message (mPending c) \<and>
     (mResync c = [] \<or> line_message (mResync c)) \<and> (current c = [] \<or> line_message (current c)) \<and>
     (\<exists>part. g_bytes c = concat (g_wire c) @ part \<and> newline \<notin> set part \<and>
       (worker c = Serving \<longrightarrow> part = []))"

lemma line_message_Normalize: "plain_text s \<Longrightarrow> line_message (Normalize s)"
  unfolding line_message_def plain_text_def using Normalize_one_line by blast

lemma strict_prefix_line:
  assumes "line_message m" and "strict_prefix out m"
  shows "newline \<notin> set out"
proof -
  obtain s where m: "m = s @ [newline]" and "newline \<notin> set s"
    using assms(1) by (auto simp: line_message_def plain_text_def one_line_def)
  moreover have "prefix out s" using assms(2) by (auto simp: m strict_prefix_def)
  ultimately show ?thesis using set_mono_prefix by blast
qed

lemma bytes_ok_QueueDelta:
  "bytes_ok c \<Longrightarrow> plain_text json \<Longrightarrow> plain_text snapshot \<Longrightarrow> bytes_ok (snd (QueueDelta config json snapshot c))"
  by (auto simp: QueueDelta_def bytes_ok_def line_message_Normalize Let_def)

lemma bytes_ok_step:
  assumes "client_step config c c'" and "bytes_ok c" and "list_all plain_call (g_calls c')"
  shows "bytes_ok c'"
  using assms(1)
proof (cases rule: client_step.cases)
  case (delta json snapshot)
  then show ?thesis using assms(2,3) bytes_ok_QueueDelta [of c json snapshot config]
    by (auto simp: QueueDelta_def Let_def split: if_splits)
next
  case (initial json)
  then show ?thesis using assms(2,3) by (auto simp: QueueInitial_def bytes_ok_def line_message_Normalize)
next
  case take_next
  then show ?thesis using assms(2) by (cases "mPending c") (auto simp: take_step_def bytes_ok_def)
next
  case (sent events out)
  then have "out = current c" using SendAll_prefix [of events "current c" 0] by simp
  then show ?thesis using sent assms(2) by (auto simp: sent_step_def bytes_ok_def)
next
  case (send_failed events out)
  then have "strict_prefix out (current c)" using SendAll_prefix [of events "current c" 0] by simp
  moreover have "line_message (current c)" using send_failed assms(2) by (simp add: bytes_ok_def)
  ultimately have "newline \<notin> set out" by (rule strict_prefix_line [rotated])
  then show ?thesis using send_failed assms(2) by (auto simp: send_failed_step_def bytes_ok_def)
qed (use assms(2) in \<open>auto simp: client_steps Let_def bytes_ok_def split: prod.split\<close>)

lemma bytes_ok_reachable:
  "client_reachable config c \<Longrightarrow> list_all plain_call (g_calls c) \<Longrightarrow> bytes_ok c"
proof (induction rule: client_reachable.induct)
  case (created c)
  then show ?case by (auto simp: new_client_def bytes_ok_def split: if_splits)
next
  case (stepped c c')
  moreover obtain later where "g_calls c' = g_calls c @ later" using g_calls_step stepped.hyps by blast
  ultimately show ?case using bytes_ok_step [OF stepped.hyps(2)] by simp
qed

lemma read_line_messages:
  assumes "list_all line_message ms" and "newline \<notin> set part"
  shows "DispatchLines True (concat ms @ part) = (map butlast ms, part)"
  using assms(1)
proof (induction ms)
  case Nil
  then show ?case using assms(2) by (simp add: DispatchLines_none)
next
  case (Cons m ms)
  then obtain s where m: "m = s @ [newline]" and s: "s \<noteq> []" "newline \<notin> set s" "carriage \<notin> set s"
    by (auto simp: line_message_def plain_text_def one_line_def)
  then have "last s \<noteq> carriage" by (metis last_in_set)
  with Cons m s show ?case by (simp add: DispatchLines_line emit_def)
qed

text \<open>
  C25. When every queued text is a nonempty text without line ends, a peer that reads lines
  from the connection reads exactly the messages whose sending completed, each once and in
  order; a message cut short by a failure is not a line, so the peer never sees it.
\<close>

theorem peer_reads_sent_messages:
  assumes "client_reachable config c" and "list_all plain_call (g_calls c)"
  shows "fst (DispatchLines True (g_bytes c)) = map butlast (g_wire c)"
proof -
  obtain part where "g_bytes c = concat (g_wire c) @ part" "newline \<notin> set part"
    and "list_all line_message (g_wire c)"
    using bytes_ok_reachable [OF assms] by (auto simp: bytes_ok_def)
  then show ?thesis by (simp add: read_line_messages)
qed

theorem peer_reads_sent_messages_witness:
  "fst (DispatchLines True (g_bytes recovered_client)) = [''s'']"
proof -
  have "g_calls recovered_client = [Call_Initial ''i'', Call_Delta ''d'' ''s'']"
    "g_wire recovered_client = [[CHR ''s'', newline]]"
    by (simp_all add: recovered_client_def sent_step_def open_step_def connected_step_def close_step_def
        overfull_eval)
  then show ?thesis
    using peer_reads_sent_messages [OF recovered_reachable] by (simp add: plain_text_def one_line_def)
qed

section \<open>The loop of the worker\<close>

text \<open>Turns in which the socket accepts each message at once and nothing arrives.\<close>

fun quiet_turns :: "nat \<Rightarrow> Client \<Rightarrow> Client option" where
  "quiet_turns 0 c = Some c"
| "quiet_turns (Suc n) c =
     Option.bind (serve_turn [Sent (length (current (take_step c)))] No_Data c) (quiet_turns n)"

definition waiting :: "Client \<Rightarrow> string list" where
  "waiting c = (if current c = [] then [] else [current c]) @ mPending c"

lemma quiet_turn:
  assumes "mRunning c" and "[] \<notin> set (mPending c)" and "waiting c = m # ms"
  shows "\<exists>c'. serve_turn [Sent (length (current (take_step c)))] No_Data c = Some c' \<and>
    waiting c' = ms \<and> g_wire c' = g_wire c @ [m] \<and> worker c' = worker c \<and> mRunning c' \<and> [] \<notin> set (mPending c')"
proof -
  have "current (take_step c) = m" "mPending (take_step c) = ms" "m \<noteq> []"
    using assms by (auto simp: waiting_def take_step_def split: if_splits)
  then show ?thesis
    using assms by (auto simp: serve_turn_def receive_turn_def sent_step_def take_step_def waiting_def Let_def
        split: if_splits)
qed

lemma quiet_turns_drain:
  assumes "mRunning c" and "[] \<notin> set (mPending c)"
  shows "\<exists>c'. quiet_turns (length (waiting c)) c = Some c' \<and> waiting c' = [] \<and>
    g_wire c' = g_wire c @ waiting c \<and> worker c' = worker c"
  using assms
proof (induction "waiting c" arbitrary: c)
  case Nil
  then show ?case by (auto intro: exI [of _ c])
next
  case (Cons m ms)
  from quiet_turn [OF Cons.prems Cons.hyps(2) [symmetric]] obtain c1 where
    c1: "serve_turn [Sent (length (current (take_step c)))] No_Data c = Some c1" "waiting c1 = ms"
      "g_wire c1 = g_wire c @ [m]" "worker c1 = worker c" "mRunning c1" "[] \<notin> set (mPending c1)" by blast
  from Cons.hyps(1) [OF c1(2) [symmetric] c1(5,6)] c1 show ?case
    by (auto simp: Cons.hyps(2) [symmetric])
qed

text \<open>
  C9. The loop of \<open>ProcessConnection\<close>, turn by turn in the order of the source, refines the step
  relation: every turn that returns is a sequence of its steps. And it makes progress: while
  the socket accepts what it is given and nothing new is queued, a running worker sends
  exactly the messages in hand and waiting, in their order, one in each turn.
\<close>

theorem worker_turns:
  assumes "worker c = Serving"
  shows "(\<forall>events event c'. readable_event event \<longrightarrow> serve_turn events event c = Some c' \<longrightarrow>
      (client_step config)\<^sup>*\<^sup>* c c') \<and>
    (mRunning c \<longrightarrow> [] \<notin> set (mPending c) \<longrightarrow>
      (\<exists>c'. quiet_turns (length (waiting c)) c = Some c' \<and> waiting c' = [] \<and>
        g_wire c' = g_wire c @ waiting c \<and> worker c' = Serving))"
  using serve_turn_steps [OF assms] quiet_turns_drain [of c] assms by auto

text \<open>The client that has reconnected, before it sends its snapshot, with a change queued.\<close>

definition reconnected_client :: Client where
  "reconnected_client =
     snd (QueueDelta small_config ''e'' ''t'' (open_step (connected_step (close_step overfull_client))))"

theorem worker_turns_witness:
  "\<exists>c'. quiet_turns 2 reconnected_client = Some c' \<and> waiting c' = [] \<and>
    g_wire c' = [[CHR ''s'', newline], [CHR ''e'', newline]]"
proof -
  have c: "worker reconnected_client = Serving" "mRunning reconnected_client"
    "mPending reconnected_client = [[CHR ''e'', newline]]" "g_wire reconnected_client = []"
    "waiting reconnected_client = [[CHR ''s'', newline], [CHR ''e'', newline]]"
    by (simp_all add: reconnected_client_def QueueDelta_def open_step_def connected_step_def close_step_def
        overfull_eval small_config_def default_config_def waiting_def Normalize_def Let_def)
  then show ?thesis
    using worker_turns [OF c(1), of small_config] by (auto simp: numeral_2_eq_2 simp del: quiet_turns.simps)
qed

end
