(* ===== verification/JsonScan.thy ===== *)
theory JsonScan
  imports CxxText
begin

text \<open>
  The field scanner that \<open>src/windows_adapter/MessageTransportGate.cpp\<close> keeps in its
  anonymous namespace (and \<open>NetworkEffectGate.cpp\<close> repeats). It does not build a JSON tree:
  it searches the text for a quoted key and reads the value behind the next colon. The loops
  are written over positions, as in the code; each is then related to a recursion over the
  rest of the text, which the proofs and the evaluations use.
\<close>

section \<open>Finding a field\<close>

text \<open>The loop that skips white space: the first position at or after \<open>pos\<close> without it.\<close>

function skip_spaces :: "string \<Rightarrow> nat \<Rightarrow> nat" where
  "skip_spaces json pos =
     (if pos < length json \<and> c_isspace (json ! pos) then skip_spaces json (pos + 1) else pos)"
  by pat_completeness auto
termination
  by (relation "measure (\<lambda>(json, pos). length json - pos)") auto

declare skip_spaces.simps [simp del]

definition ValueStart :: "string \<Rightarrow> string \<Rightarrow> nat \<Rightarrow> nat result" where
  "ValueStart json key start =
     (let needle = [dquote] @ key @ [dquote] in
      case str_find needle json start of
        None \<Rightarrow> Inl (Runtime_Error (''missing JSON field: '' @ key))
      | Some keyPosition \<Rightarrow>
          (case str_find '':'' json (keyPosition + length needle) of
            None \<Rightarrow> Inl (Runtime_Error (''invalid JSON field: '' @ key))
          | Some colon \<Rightarrow> Inr (skip_spaces json (colon + 1))))"

section \<open>Strings\<close>

text \<open>The escapes the reader accepts; \<open>\u\<close> is not one of them.\<close>

definition unescape :: "char \<Rightarrow> char option" where
  "unescape escaped =
     (if escaped = dquote \<or> escaped = bslash \<or> escaped = CHR ''/'' then Some escaped
      else if escaped = CHR ''b'' then Some (CHR 0x08)
      else if escaped = CHR ''f'' then Some (CHR 0x0C)
      else if escaped = CHR ''n'' then Some newline
      else if escaped = CHR ''r'' then Some carriage
      else if escaped = CHR ''t'' then Some (CHR 0x09)
      else None)"

abbreviation unterminated_string :: exn where
  "unterminated_string \<equiv> Runtime_Error ''unterminated JSON string''"

abbreviation unsupported_escape :: exn where
  "unsupported_escape \<equiv> Runtime_Error ''unsupported JSON string escape''"

function string_loop :: "string \<Rightarrow> nat \<Rightarrow> string \<Rightarrow> string result" where
  "string_loop json pos result =
     (if pos < length json then
        (let character = json ! pos; pos1 = pos + 1 in
         if character = dquote then Inr result
         else if character \<noteq> bslash then string_loop json pos1 (result @ [character])
         else if length json \<le> pos1 then Inl unterminated_string
         else
           (case unescape (json ! pos1) of
             None \<Rightarrow> Inl unsupported_escape
           | Some c \<Rightarrow> string_loop json (pos1 + 1) (result @ [c])))
      else Inl unterminated_string)"
  by pat_completeness auto
termination
  by (relation "measure (\<lambda>(json, pos, result). length json - pos)") auto

declare string_loop.simps [simp del]

definition JsonString :: "string \<Rightarrow> string \<Rightarrow> nat \<Rightarrow> string result" where
  "JsonString json key start =
     rbind (ValueStart json key start) (\<lambda>pos.
       if length json \<le> pos \<or> json ! pos \<noteq> dquote
       then Inl (Runtime_Error (''JSON field is not a string: '' @ key))
       else string_loop json (pos + 1) [])"

section \<open>Numbers and booleans\<close>

abbreviation uint64_range :: exn where
  "uint64_range \<equiv> Runtime_Error ''JSON integer exceeds uint64 range''"

text \<open>The digit loop with its overflow test before each multiplication.\<close>

function digit_loop :: "string \<Rightarrow> nat \<Rightarrow> u64 \<Rightarrow> u64 result" where
  "digit_loop json pos value =
     (if pos < length json \<and> c_isdigit (json ! pos) then
        (let digit = of_nat (digit_value (json ! pos)) in
         if (- 1 - digit) div 10 < value then Inl uint64_range
         else digit_loop json (pos + 1) (value * 10 + digit))
      else Inr value)"
  by pat_completeness auto
termination
  by (relation "measure (\<lambda>(json, pos, value). length json - pos)") auto

declare digit_loop.simps [simp del]

definition JsonUint64 :: "string \<Rightarrow> string \<Rightarrow> u64 result" where
  "JsonUint64 json key =
     rbind (ValueStart json key 0) (\<lambda>pos.
       if length json \<le> pos \<or> \<not> c_isdigit (json ! pos)
       then Inl (Runtime_Error (''JSON field is not an unsigned integer: '' @ key))
       else digit_loop json pos 0)"

definition JsonDouble :: "string \<Rightarrow> string \<Rightarrow> double result" where
  "JsonDouble json key =
     rbind (ValueStart json key 0) (\<lambda>start.
       rbind (stod (drop start json)) (\<lambda>(value, consumed).
         if consumed = 0 \<or> \<not> isfinite value
         then Inl (Runtime_Error (''JSON field is not a finite number: '' @ key))
         else Inr value))"

definition JsonBool :: "string \<Rightarrow> string \<Rightarrow> bool result" where
  "JsonBool json key =
     rbind (ValueStart json key 0) (\<lambda>pos.
       if substr json pos 4 = ''true'' then Inr True
       else if substr json pos 5 = ''false'' then Inr False
       else Inl (Runtime_Error (''JSON field is not boolean: '' @ key)))"

section \<open>Containers\<close>

abbreviation unterminated_container :: exn where
  "unterminated_container \<equiv> Runtime_Error ''unterminated JSON container''"

function matching_loop ::
  "string \<Rightarrow> nat \<Rightarrow> char \<Rightarrow> char \<Rightarrow> int \<Rightarrow> bool \<Rightarrow> bool \<Rightarrow> nat result" where
  "matching_loop json pos opener closer depth inString escaped =
     (if pos < length json then
        (let character = json ! pos in
         if inString then
           (if escaped then matching_loop json (pos + 1) opener closer depth True False
            else if character = bslash then matching_loop json (pos + 1) opener closer depth True True
            else if character = dquote then matching_loop json (pos + 1) opener closer depth False False
            else matching_loop json (pos + 1) opener closer depth True False)
         else if character = dquote then matching_loop json (pos + 1) opener closer depth True escaped
         else if character = opener then
           matching_loop json (pos + 1) opener closer (depth + 1) False escaped
         else if character = closer then
           (if depth - 1 = 0 then Inr pos
            else matching_loop json (pos + 1) opener closer (depth - 1) False escaped)
         else matching_loop json (pos + 1) opener closer depth False escaped)
      else Inl unterminated_container)"
  by pat_completeness auto
termination
  by (relation "measure (\<lambda>(json, pos, opener, closer, depth, inString, escaped). length json - pos)") auto

declare matching_loop.simps [simp del]

definition MatchingEnd :: "string \<Rightarrow> nat \<Rightarrow> char \<Rightarrow> char \<Rightarrow> nat result" where
  "MatchingEnd json start opener closer = matching_loop json start opener closer 0 False False"

text \<open>The same scan over the rest of the text: the offset of the closing character.\<close>

fun scan_close :: "char \<Rightarrow> char \<Rightarrow> int \<Rightarrow> bool \<Rightarrow> bool \<Rightarrow> string \<Rightarrow> nat option" where
  "scan_close opener closer depth inString escaped [] = None"
| "scan_close opener closer depth inString escaped (c # cs) =
     (if inString then
        map_option Suc (scan_close opener closer depth (escaped \<or> c = bslash \<or> c \<noteq> dquote)
          (\<not> escaped \<and> c = bslash) cs)
      else if c = dquote then map_option Suc (scan_close opener closer depth True escaped cs)
      else if c = opener then map_option Suc (scan_close opener closer (depth + 1) False escaped cs)
      else if c = closer then
        (if depth = 1 then Some 0
         else map_option Suc (scan_close opener closer (depth - 1) False escaped cs))
      else map_option Suc (scan_close opener closer depth False escaped cs))"

definition offset_result :: "nat \<Rightarrow> nat option \<Rightarrow> nat result" where
  "offset_result pos r = (case r of None \<Rightarrow> Inl unterminated_container | Some k \<Rightarrow> Inr (pos + k))"

lemma offset_result_Suc: "offset_result pos (map_option Suc r) = offset_result (Suc pos) r"
  by (cases r) (simp_all add: offset_result_def)

lemma matching_loop_scan:
  "matching_loop json pos opener closer depth inString escaped =
    offset_result pos (scan_close opener closer depth inString escaped (drop pos json))"
proof (induction "length json - pos" arbitrary: pos depth inString escaped rule: less_induct)
  case less
  show ?case
  proof (cases "pos < length json")
    case False
    then show ?thesis by (simp add: matching_loop.simps [of json pos] offset_result_def)
  next
    case True
    then have d: "drop pos json = json ! pos # drop (Suc pos) json" by (simp add: Cons_nth_drop_Suc)
    have IH: "matching_loop json (pos + 1) opener closer depth' inString' escaped' =
        offset_result (Suc pos) (scan_close opener closer depth' inString' escaped' (drop (Suc pos) json))"
      for depth' inString' escaped'
      using less [of "pos + 1"] True by simp
    have here: "offset_result pos (Some 0) = Inr pos" by (simp add: offset_result_def)
    show ?thesis
      unfolding d matching_loop.simps [of json pos] IH scan_close.simps
      using True by (simp add: Let_def offset_result_Suc here)
  qed
qed

lemma scan_close_bound: "scan_close opener closer depth inString escaped cs = Some k \<Longrightarrow> k < length cs"
  by (induction opener closer depth inString escaped cs arbitrary: k rule: scan_close.induct)
    (auto split: if_splits)

lemma matching_loop_bounds:
  assumes "matching_loop json pos opener closer depth inString escaped = Inr i"
  shows "pos \<le> i \<and> i < length json"
proof -
  from assms obtain k where "scan_close opener closer depth inString escaped (drop pos json) = Some k"
    and "i = pos + k"
    by (auto simp: matching_loop_scan offset_result_def split: option.splits)
  then show ?thesis using scan_close_bound by fastforce
qed

text \<open>The inner loop of \<open>ObjectArray\<close>, which skips white space and commas.\<close>

function skip_separators :: "string \<Rightarrow> nat \<Rightarrow> nat \<Rightarrow> nat" where
  "skip_separators json arrayEnd pos =
     (if pos < arrayEnd \<and> (c_isspace (json ! pos) \<or> json ! pos = CHR '','')
      then skip_separators json arrayEnd (pos + 1) else pos)"
  by pat_completeness auto
termination
  by (relation "measure (\<lambda>(json, arrayEnd, pos). arrayEnd - pos)") auto

declare skip_separators.simps [simp del]

lemma skip_separators_ge: "pos \<le> skip_separators json arrayEnd pos"
proof (induction json arrayEnd pos rule: skip_separators.induct)
  case (1 json arrayEnd pos)
  then show ?case by (subst skip_separators.simps) (auto intro: le_trans [of _ "pos + 1"])
qed

function object_loop :: "string \<Rightarrow> string \<Rightarrow> nat \<Rightarrow> nat \<Rightarrow> string list \<Rightarrow> string list result" where
  "object_loop json key arrayEnd pos objects =
     (if pos < arrayEnd then
        (let pos1 = skip_separators json arrayEnd pos in
         if pos1 = arrayEnd then Inr objects
         else if json ! pos1 \<noteq> CHR ''{'' then Inl (Runtime_Error (key @ '' entries must be objects''))
         else
           (case MatchingEnd json pos1 (CHR ''{'') (CHR ''}'') of
             Inl e \<Rightarrow> Inl e
           | Inr objectEnd \<Rightarrow>
               object_loop json key arrayEnd (objectEnd + 1)
                 (objects @ [substr json pos1 (objectEnd - pos1 + 1)])))
      else Inr objects)"
  by pat_completeness auto
termination
proof (relation "measure (\<lambda>(json, key, arrayEnd, pos, objects). arrayEnd - pos)")
  fix json key :: string and arrayEnd pos pos1 objectEnd :: nat and objects :: "string list"
  assume "pos < arrayEnd" and pos1: "pos1 = skip_separators json arrayEnd pos"
    and "MatchingEnd json pos1 (CHR ''{'') (CHR ''}'') = Inr objectEnd"
  then have "pos1 \<le> objectEnd" by (auto simp: MatchingEnd_def dest: matching_loop_bounds)
  with pos1 skip_separators_ge [of pos json arrayEnd] \<open>pos < arrayEnd\<close>
  show "((json, key, arrayEnd, objectEnd + 1, objects @ [substr json pos1 (objectEnd - pos1 + 1)]),
      (json, key, arrayEnd, pos, objects))
    \<in> measure (\<lambda>(json, key, arrayEnd, pos, objects). arrayEnd - pos)" by simp
qed simp

declare object_loop.simps [simp del]

definition ObjectArray :: "string \<Rightarrow> string \<Rightarrow> string list result" where
  "ObjectArray json key =
     rbind (ValueStart json key 0) (\<lambda>pos.
       if length json \<le> pos \<or> json ! pos \<noteq> CHR ''[''
       then Inl (Runtime_Error (key @ '' must be a JSON array''))
       else rbind (MatchingEnd json pos (CHR ''['') (CHR '']'')) (\<lambda>arrayEnd.
         object_loop json key arrayEnd (pos + 1) []))"

end
