(* ===== verification/Protocol.thy ===== *)
theory Protocol
  imports CxxText
begin

text \<open>
  The wire protocol of \<open>src/windows_adapter/AfsimNs3Protocol.hpp\<close> and \<open>.cpp\<close>: the state
  structures, and the writers that print them as one JSON object. An output stream is the
  text written to it, so a writer is a function to strings and successive insertions are
  concatenations; the two builders set the stream's precision to 15 digits.
\<close>

section \<open>The state structures\<close>

record Position =
  xM :: double
  yM :: double
  zM :: double

record Velocity =
  vxMps :: double
  vyMps :: double
  vzMps :: double

record DeviceConfig =
  dev_deviceId :: string
  dev_peerEntityId :: string
  dev_kind :: string
  dev_dataRateBps :: u64
  dev_delayMs :: double
  dev_lossRate :: double
  dev_linkState :: string

record EffectPolicy =
  pol_subsystemId :: string
  pol_subsystemType :: string
  pol_peerEntityId :: string
  pol_maxDelayMs :: double
  pol_maxLossRate :: double
  pol_minThroughputBps :: double
  pol_violationState :: string

record EntityState =
  ent_entityId :: string
  ent_businessNodeId :: string
  ent_parentEntityId :: string
  ent_hasParent :: bool
  ent_position :: Position
  ent_velocity :: Velocity
  ent_headingDeg :: double
  ent_alive :: bool
  ent_devices :: "DeviceConfig list"
  ent_effectPolicies :: "EffectPolicy list"

record FlowConfig =
  flow_flowId :: string
  flow_sourceEntityId :: string
  flow_targetEntityId :: string
  flow_packetSizeBytes :: u32
  flow_intervalMs :: u32
  flow_durationMs :: u32
  flow_active :: bool

record DeltaState =
  entityUpserts :: "EntityState list"
  entityRemovals :: "string list"
  flowUpserts :: "FlowConfig list"
  flowRemovals :: "string list"

text \<open>The value-initialised structures, \<open>DeviceConfig{}\<close> and so on.\<close>

definition empty_device :: DeviceConfig where
  "empty_device = \<lparr>dev_deviceId = [], dev_peerEntityId = [], dev_kind = [], dev_dataRateBps = 0,
     dev_delayMs = Fin 0, dev_lossRate = Fin 0, dev_linkState = []\<rparr>"

definition empty_policy :: EffectPolicy where
  "empty_policy = \<lparr>pol_subsystemId = [], pol_subsystemType = [], pol_peerEntityId = [],
     pol_maxDelayMs = Fin 0, pol_maxLossRate = Fin 0, pol_minThroughputBps = Fin 0,
     pol_violationState = []\<rparr>"

definition empty_entity :: EntityState where
  "empty_entity = \<lparr>ent_entityId = [], ent_businessNodeId = [], ent_parentEntityId = [],
     ent_hasParent = False, ent_position = \<lparr>xM = Fin 0, yM = Fin 0, zM = Fin 0\<rparr>,
     ent_velocity = \<lparr>vxMps = Fin 0, vyMps = Fin 0, vzMps = Fin 0\<rparr>, ent_headingDeg = Fin 0,
     ent_alive = False, ent_devices = [], ent_effectPolicies = []\<rparr>"

definition empty_flow :: FlowConfig where
  "empty_flow = \<lparr>flow_flowId = [], flow_sourceEntityId = [], flow_targetEntityId = [],
     flow_packetSizeBytes = 0, flow_intervalMs = 0, flow_durationMs = 0, flow_active = False\<rparr>"

definition empty_delta :: DeltaState where
  "empty_delta = \<lparr>entityUpserts = [], entityRemovals = [], flowUpserts = [], flowRemovals = []\<rparr>"

section \<open>Writers\<close>

text \<open>One lower-case hexadecimal digit, and a byte as four of them.\<close>

definition hex_digit :: "nat \<Rightarrow> char" where
  "hex_digit d = ''0123456789abcdef'' ! d"

definition hex4 :: "nat \<Rightarrow> string" where
  "hex4 n = [CHR ''0'', CHR ''0'', hex_digit (n div 16), hex_digit (n mod 16)]"

definition quote_char :: "char \<Rightarrow> string" where
  "quote_char c =
     (if c = dquote then [bslash, dquote]
      else if c = bslash then [bslash, bslash]
      else if c = CHR 0x08 then [bslash, CHR ''b'']
      else if c = CHR 0x0C then [bslash, CHR ''f'']
      else if c = newline then [bslash, CHR ''n'']
      else if c = carriage then [bslash, CHR ''r'']
      else if c = CHR 0x09 then [bslash, CHR ''t'']
      else if byte_of c < 0x20 then [bslash, CHR ''u''] @ hex4 (byte_of c)
      else [c])"

definition Quote :: "string \<Rightarrow> string" where
  "Quote value = [dquote] @ concat (map quote_char value) @ [dquote]"

definition Boolean :: "bool \<Rightarrow> string" where
  "Boolean value = (if value then ''true'' else ''false'')"

abbreviation put_double :: "double \<Rightarrow> string" where
  "put_double x \<equiv> show_general 15 x"

abbreviation put_word :: "'a :: len word \<Rightarrow> string" where
  "put_word n \<equiv> show_nat (unat n)"

definition WriteDevice :: "DeviceConfig \<Rightarrow> string" where
  "WriteDevice device =
     ''{\"device_id\":'' @ Quote (dev_deviceId device)
     @ '',\"peer_entity_id\":'' @ Quote (dev_peerEntityId device)
     @ '',\"kind\":'' @ Quote (dev_kind device)
     @ '',\"data_rate_bps\":'' @ put_word (dev_dataRateBps device)
     @ '',\"delay_ms\":'' @ put_double (dev_delayMs device)
     @ '',\"loss_rate\":'' @ put_double (dev_lossRate device)
     @ '',\"link_state\":'' @ Quote (dev_linkState device) @ ''}''"

definition WritePolicy :: "EffectPolicy \<Rightarrow> string" where
  "WritePolicy policy =
     ''{\"subsystem_id\":'' @ Quote (pol_subsystemId policy)
     @ '',\"subsystem_type\":'' @ Quote (pol_subsystemType policy)
     @ '',\"peer_entity_id\":'' @ Quote (pol_peerEntityId policy)
     @ '',\"max_delay_ms\":'' @ put_double (pol_maxDelayMs policy)
     @ '',\"max_loss_rate\":'' @ put_double (pol_maxLossRate policy)
     @ '',\"min_throughput_bps\":'' @ put_double (pol_minThroughputBps policy)
     @ '',\"violation_state\":'' @ Quote (pol_violationState policy)
     @ ''}''"

text \<open>The loop of \<open>WriteArray\<close>: a comma before every element but the first.\<close>

fun write_rest :: "('v \<Rightarrow> string) \<Rightarrow> bool \<Rightarrow> 'v list \<Rightarrow> string" where
  "write_rest writer first [] = []"
| "write_rest writer first (v # vs) =
     (if first then [] else '','') @ writer v @ write_rest writer False vs"

definition WriteArray :: "'v list \<Rightarrow> ('v \<Rightarrow> string) \<Rightarrow> string" where
  "WriteArray values writer = ''['' @ write_rest writer True values @ '']''"

definition WriteEntity :: "EntityState \<Rightarrow> string" where
  "WriteEntity entity =
     ''{\"entity_id\":'' @ Quote (ent_entityId entity)
     @ '',\"business_node_id\":'' @ Quote (ent_businessNodeId entity)
     @ '',\"parent_entity_id\":''
     @ (if ent_hasParent entity then Quote (ent_parentEntityId entity) else ''null'')
     @ '',\"position\":{\"x_m\":'' @ put_double (xM (ent_position entity))
     @ '',\"y_m\":'' @ put_double (yM (ent_position entity))
     @ '',\"z_m\":'' @ put_double (zM (ent_position entity)) @ ''}''
     @ '',\"velocity\":{\"vx_mps\":'' @ put_double (vxMps (ent_velocity entity))
     @ '',\"vy_mps\":'' @ put_double (vyMps (ent_velocity entity))
     @ '',\"vz_mps\":'' @ put_double (vzMps (ent_velocity entity)) @ ''}''
     @ '',\"heading_deg\":'' @ put_double (ent_headingDeg entity)
     @ '',\"alive\":'' @ Boolean (ent_alive entity)
     @ '',\"devices\":'' @ WriteArray (ent_devices entity) WriteDevice
     @ '',\"effect_policies\":'' @ WriteArray (ent_effectPolicies entity) WritePolicy
     @ ''}''"

definition WriteFlow :: "FlowConfig \<Rightarrow> string" where
  "WriteFlow flow =
     ''{\"flow_id\":'' @ Quote (flow_flowId flow)
     @ '',\"source_entity_id\":'' @ Quote (flow_sourceEntityId flow)
     @ '',\"target_entity_id\":'' @ Quote (flow_targetEntityId flow)
     @ '',\"packet_size_bytes\":'' @ put_word (flow_packetSizeBytes flow)
     @ '',\"interval_ms\":'' @ put_word (flow_intervalMs flow)
     @ '',\"duration_ms\":'' @ put_word (flow_durationMs flow)
     @ '',\"active\":'' @ Boolean (flow_active flow) @ ''}''"

definition WriteStrings :: "string list \<Rightarrow> string" where
  "WriteStrings values = WriteArray values Quote"

definition WriteEnvelope :: "string \<Rightarrow> string \<Rightarrow> u64 \<Rightarrow> string" where
  "WriteEnvelope messageType requestId timestampMs =
     ''{\"protocol_version\":\"0.2\",\"message_type\":''
     @ Quote messageType @ '',\"request_id\":'' @ Quote requestId
     @ '',\"timestamp_ms\":'' @ put_word timestampMs"

section \<open>The two messages\<close>

definition BuildInitMessage ::
  "string \<Rightarrow> u64 \<Rightarrow> EntityState list \<Rightarrow> FlowConfig list \<Rightarrow> string" where
  "BuildInitMessage requestId timestampMs entities flows =
     WriteEnvelope ''afsim_init'' requestId timestampMs
     @ '',\"entities\":'' @ WriteArray entities WriteEntity
     @ '',\"flows\":'' @ WriteArray flows WriteFlow
     @ ''}''"

definition BuildDeltaMessage :: "string \<Rightarrow> u64 \<Rightarrow> DeltaState \<Rightarrow> string" where
  "BuildDeltaMessage requestId timestampMs delta =
     WriteEnvelope ''afsim_delta'' requestId timestampMs
     @ '',\"entity_upserts\":'' @ WriteArray (entityUpserts delta) WriteEntity
     @ '',\"entity_removals\":'' @ WriteStrings (entityRemovals delta)
     @ '',\"flow_upserts\":'' @ WriteArray (flowUpserts delta) WriteFlow
     @ '',\"flow_removals\":'' @ WriteStrings (flowRemovals delta)
     @ ''}''"

section \<open>Every message is one line\<close>

text \<open>A text of printable bytes: no control byte, so in particular no line break.\<close>

definition printable :: "string \<Rightarrow> bool" where
  "printable s \<longleftrightarrow> (\<forall>c \<in> set s. 32 \<le> byte_of c)"

lemma printable_append [simp]: "printable (s @ t) \<longleftrightarrow> printable s \<and> printable t"
  by (auto simp: printable_def)

lemma printable_Cons [simp]: "printable (c # s) \<longleftrightarrow> 32 \<le> byte_of c \<and> printable s"
  by (auto simp: printable_def)

lemma printable_Nil [simp]: "printable []"
  by (simp add: printable_def)

lemma printable_subset: "printable t \<Longrightarrow> set s \<subseteq> set t \<Longrightarrow> printable s"
  by (auto simp: printable_def)

lemma printable_no_newline: "printable s \<Longrightarrow> newline \<notin> set s \<and> carriage \<notin> set s"
  by (auto simp: printable_def byte_of_def)

lemma printable_digit: "d < 10 \<Longrightarrow> 32 \<le> byte_of (digit_char d)"
proof -
  assume "d < 10"
  then have "d = 0 \<or> d = 1 \<or> d = 2 \<or> d = 3 \<or> d = 4 \<or> d = 5 \<or> d = 6 \<or> d = 7 \<or> d = 8 \<or> d = 9"
    by arith
  then show ?thesis by (elim disjE) (simp_all add: digit_char_def byte_of_def)
qed

lemma printable_show_nat [simp]: "printable (show_nat n)"
proof (induction n rule: show_nat.induct)
  case (1 n)
  then show ?case by (subst show_nat.simps) (simp add: printable_digit)
qed

lemma set_strip_zeros: "set (strip_zeros ds) \<subseteq> set ds"
  using set_dropWhileD by (fastforce simp: strip_zeros_def)

lemma printable_take [simp]: "printable ds \<Longrightarrow> printable (take k ds)"
  by (erule printable_subset) (rule set_take_subset)

lemma printable_drop [simp]: "printable ds \<Longrightarrow> printable (drop k ds)"
  by (erule printable_subset) (rule set_drop_subset)

lemma printable_strip_zeros [simp]: "printable ds \<Longrightarrow> printable (strip_zeros ds)"
  by (erule printable_subset) (rule set_strip_zeros)

lemma printable_replicate [simp]: "32 \<le> byte_of c \<Longrightarrow> printable (replicate n c)"
  by (auto simp: printable_def)

lemma printable_dot_part [simp]: "printable s \<Longrightarrow> printable (dot_part s)"
  by (simp add: dot_part_def byte_of_def)

lemma printable_show_exponent [simp]: "printable (show_exponent x)"
  by (simp add: show_exponent_def Let_def byte_of_def)

lemma printable_general_pos [simp]: "printable (general_pos p r)"
  by (simp add: general_pos_def Let_def byte_of_def split: prod.split)

lemma printable_show_general [simp]: "printable (show_general p x)"
  by (cases "(p, x)" rule: show_general.cases) (simp_all add: byte_of_def)

lemma printable_hex_digit:
  assumes "n < 16"
  shows "32 \<le> byte_of (hex_digit n)"
proof -
  have "hex_digit n \<in> set ''0123456789abcdef''"
    unfolding hex_digit_def using assms by (intro nth_mem) (simp add: eval_nat_numeral)
  then show ?thesis by (auto simp: byte_of_def)
qed

lemma byte_of_less: "byte_of c < 256"
  by (simp add: byte_of_def)

lemma printable_hex4: "n < 256 \<Longrightarrow> printable (hex4 n)"
  by (simp add: hex4_def printable_hex_digit less_mult_imp_div_less)
    (simp add: byte_of_def)

lemma byte_of_literals [simp]:
  "byte_of dquote = 34" "byte_of bslash = 92" "byte_of newline = 10" "byte_of carriage = 13"
  "byte_of (CHR ''u'') = 117" "byte_of (CHR ''b'') = 98" "byte_of (CHR ''f'') = 102"
  "byte_of (CHR ''n'') = 110" "byte_of (CHR ''r'') = 114" "byte_of (CHR ''t'') = 116"
  by (simp_all add: byte_of_def)

lemma printable_quote_char: "printable (quote_char c)"
  by (simp add: quote_char_def printable_hex4 byte_of_less)

lemma printable_Quote [simp]: "printable (Quote s)"
  using printable_quote_char by (fastforce simp: Quote_def printable_def byte_of_def)

lemma printable_WriteArray [simp]:
  assumes "\<And>v. printable (writer v)"
  shows "printable (WriteArray vs writer)"
proof -
  have "printable (write_rest writer b vs)" for b
    by (induction vs arbitrary: b) (simp_all add: assms byte_of_def)
  then show ?thesis by (simp add: WriteArray_def byte_of_def)
qed

lemma printable_literals [simp]: "printable (Boolean b)"
  by (simp add: Boolean_def byte_of_def)

lemmas printable_writers = WriteDevice_def WritePolicy_def WriteFlow_def WriteStrings_def
  WriteEnvelope_def byte_of_def

lemma printable_WriteDevice [simp]: "printable (WriteDevice d)"
  by (simp add: printable_writers)

lemma printable_WritePolicy [simp]: "printable (WritePolicy p)"
  by (simp add: printable_writers)

lemma printable_WriteEntity [simp]: "printable (WriteEntity e)"
  by (simp add: WriteEntity_def byte_of_def)

lemma printable_WriteFlow [simp]: "printable (WriteFlow f)"
  by (simp add: printable_writers)

lemma printable_WriteEnvelope [simp]: "printable (WriteEnvelope m r t)"
  by (simp add: printable_writers)

lemma printable_messages:
  "printable (BuildInitMessage requestId timestampMs entities flows)"
  "printable (BuildDeltaMessage requestId timestampMs delta)"
  by (simp_all add: BuildInitMessage_def BuildDeltaMessage_def WriteStrings_def byte_of_def)

text \<open>
  C24. Both messages consist of printable bytes only, whatever bytes the identifiers hold and
  whatever the doubles are, so each is exactly one line of the line-delimited protocol.
\<close>

theorem messages_are_single_lines:
  "printable (BuildInitMessage requestId timestampMs entities flows) \<and>
   printable (BuildDeltaMessage requestId timestampMs delta) \<and>
   newline \<notin> set (BuildInitMessage requestId timestampMs entities flows) \<and>
   newline \<notin> set (BuildDeltaMessage requestId timestampMs delta)"
  using printable_messages printable_no_newline by blast

end
