(* ===== verification/DecimalText.thy ===== *)
theory DecimalText
  imports CxxText
begin

text \<open>
  What the number printers mean: the digits of \<^const>\<open>show_nat\<close> read back as the number,
  and \<^const>\<open>show_general\<close> prints the value rounded to its significant digits. The printed
  text is related to its value by the grammar of JSON numbers, stated independently of the
  printer.
\<close>

section \<open>Digits\<close>

definition all_digits :: "string \<Rightarrow> bool" where
  "all_digits ds \<longleftrightarrow> list_all c_isdigit ds"

lemma all_digits_simps [simp]:
  "all_digits []"
  "all_digits (d # ds) \<longleftrightarrow> c_isdigit d \<and> all_digits ds"
  "all_digits (ds @ es) \<longleftrightarrow> all_digits ds \<and> all_digits es"
  by (simp_all add: all_digits_def)

lemma digits_value_Nil [simp]: "digits_value b [] = 0"
  by (simp add: digits_value_def)

lemma digits_value_foldl: "foldl (\<lambda>a d. a * b + digit_value d) n ds = n * b ^ length ds + digits_value b ds"
proof (induction ds arbitrary: n)
  case Nil
  then show ?case by (simp add: digits_value_def)
next
  case (Cons d ds)
  have "digits_value b (d # ds) = foldl (\<lambda>a d. a * b + digit_value d) (digit_value d) ds"
    by (simp add: digits_value_def)
  with Cons [of "n * b + digit_value d"] Cons [of "digit_value d"]
  show ?case by (simp add: algebra_simps)
qed

lemma digits_value_append: "digits_value b (ds @ es) = digits_value b ds * b ^ length es + digits_value b es"
proof -
  have "digits_value b (ds @ es) = foldl (\<lambda>a d. a * b + digit_value d) (digits_value b ds) es"
    by (simp add: digits_value_def)
  then show ?thesis by (simp only: digits_value_foldl)
qed

lemma digits_value_Cons: "digits_value b (d # ds) = digit_value d * b ^ length ds + digits_value b ds"
  using digits_value_append [of b "[d]" ds] by (simp add: digits_value_def)

lemma digits_value_zeros [simp]: "digits_value b (replicate n (CHR ''0'')) = 0"
  by (induction n) (simp_all add: digits_value_Cons digit_value_def byte_of_def)

lemma less_10_cases: "d < (10 :: nat) \<Longrightarrow>
  d = 0 \<or> d = 1 \<or> d = 2 \<or> d = 3 \<or> d = 4 \<or> d = 5 \<or> d = 6 \<or> d = 7 \<or> d = 8 \<or> d = 9"
  by arith

lemma digit_char_digit: "d < 10 \<Longrightarrow> c_isdigit (digit_char d) \<and> digit_value (digit_char d) = d"
  by (drule less_10_cases, elim disjE)
    (simp_all add: digit_char_def c_isdigit_def digit_value_def byte_of_def)

lemma digit_char_0: "d < 10 \<Longrightarrow> digit_char d = CHR ''0'' \<longleftrightarrow> d = 0"
  by (drule less_10_cases, elim disjE) (simp_all add: digit_char_def)

lemma all_digits_show_nat [simp]: "all_digits (show_nat n)"
proof (induction n rule: show_nat.induct)
  case (1 n)
  then show ?case by (subst show_nat.simps) (simp add: digit_char_digit)
qed

lemma digits_value_show_nat [simp]: "digits_value 10 (show_nat n) = n"
proof (induction n rule: show_nat.induct)
  case (1 n)
  then show ?case
    by (subst show_nat.simps) (simp add: digits_value_append digits_value_Cons digit_char_digit)
qed

lemma show_nat_nonempty [simp]: "show_nat n \<noteq> []"
  by (subst show_nat.simps) simp

lemma show_nat_hd: "0 < n \<Longrightarrow> hd (show_nat n) \<noteq> CHR ''0''"
proof (induction n rule: show_nat.induct)
  case (1 n)
  then show ?case by (subst show_nat.simps) (auto simp: digit_char_0 hd_append)
qed

lemma show_nat_length: "10 ^ (length (show_nat n) - 1) \<le> n \<or> n = 0" "n < 10 ^ length (show_nat n)"
proof (induction n rule: show_nat.induct)
  case (1 n)
  {
    case 1
    then show ?case
    proof (cases "n < 10")
      case True
      then show ?thesis by (auto simp: show_nat.simps [of n])
    next
      case False
      let ?l = "length (show_nat (n div 10))"
      obtain j where j: "?l = Suc j"
        using show_nat_nonempty [of "n div 10"] by (metis length_0_conv not0_implies_Suc)
      have "10 ^ (?l - 1) \<le> n div 10" using "1.IH"(1) False by auto
      then have "10 * 10 ^ j \<le> n" using j by simp
      moreover have "length (show_nat n) = Suc (Suc j)"
        using False j by (simp add: show_nat.simps [of n])
      ultimately show ?thesis by simp
    qed
  next
    case 2
    then show ?case
    proof (cases "n < 10")
      case True
      then show ?thesis by (simp add: show_nat.simps [of n])
    next
      case False
      then have "n div 10 < 10 ^ length (show_nat (n div 10))" using "1.IH"(2) by simp
      then have "n < 10 * 10 ^ length (show_nat (n div 10))" by linarith
      then show ?thesis using False by (simp add: show_nat.simps [of n])
    qed
  }
qed

lemma length_show_nat:
  assumes "10 ^ k \<le> n" and "n < 10 ^ Suc k"
  shows "length (show_nat n) = Suc k"
proof -
  have "0 < n" using assms(1) by (metis gr0I not_less zero_less_numeral zero_less_power)
  then have lo: "10 ^ (length (show_nat n) - 1) \<le> n" using show_nat_length(1) by blast
  then have "(10::nat) ^ (length (show_nat n) - 1) < 10 ^ Suc k" using assms(2) by linarith
  then have a: "length (show_nat n) - 1 < Suc k"
    by (rule power_less_imp_less_exp [rotated]) simp
  have "(10::nat) ^ k < 10 ^ length (show_nat n)" using assms(1) show_nat_length(2) [of n] by linarith
  then have "k < length (show_nat n)" by (rule power_less_imp_less_exp [rotated]) simp
  with a show ?thesis by simp
qed

section \<open>JSON number texts\<close>

text \<open>The integer part of a JSON number: a single zero or digits that do not start with zero.\<close>

definition json_int :: "string \<Rightarrow> bool" where
  "json_int ds \<longleftrightarrow> ds \<noteq> [] \<and> all_digits ds \<and> (hd ds = CHR ''0'' \<longrightarrow> ds = ''0'')"

inductive json_unsigned :: "string \<Rightarrow> rat \<Rightarrow> bool" where
  whole: "json_int ip \<Longrightarrow> json_unsigned ip (of_nat (digits_value 10 ip))"
| fraction: "json_int ip \<Longrightarrow> fp \<noteq> [] \<Longrightarrow> all_digits fp \<Longrightarrow>
    json_unsigned (ip @ CHR ''.'' # fp) (of_nat (digits_value 10 (ip @ fp)) / 10 ^ length fp)"

inductive json_number :: "string \<Rightarrow> rat \<Rightarrow> bool" where
  plain: "json_unsigned s v \<Longrightarrow> json_number s v"
| exp_pos: "json_unsigned s v \<Longrightarrow> es \<noteq> [] \<Longrightarrow> all_digits es \<Longrightarrow>
    json_number (s @ CHR ''e'' # CHR ''+'' # es) (v * 10 powi int (digits_value 10 es))"
| exp_neg: "json_unsigned s v \<Longrightarrow> es \<noteq> [] \<Longrightarrow> all_digits es \<Longrightarrow>
    json_number (s @ CHR ''e'' # CHR ''-'' # es) (v * 10 powi - int (digits_value 10 es))"
| minus: "json_number s v \<Longrightarrow> hd s \<noteq> CHR ''-'' \<Longrightarrow> json_number (CHR ''-'' # s) (- v)"

lemma json_unsigned_dot:
  assumes "json_int ip" and "all_digits fp"
  shows "json_unsigned (ip @ dot_part fp) (of_nat (digits_value 10 (ip @ fp)) / 10 ^ length fp)"
  using assms json_unsigned.intros by (cases "fp = []") (auto simp: dot_part_def)

lemma json_int_show_nat: "json_int (show_nat n)"
proof (cases "n = 0")
  case True
  then show ?thesis by (simp add: json_int_def show_nat.simps digit_char_def c_isdigit_def byte_of_def)
next
  case False
  then show ?thesis using show_nat_hd [of n] by (simp add: json_int_def)
qed

lemma json_number_show_nat: "json_number (show_nat n) (of_nat n)"
  using json_number.plain [OF json_unsigned.whole [OF json_int_show_nat]] by simp

lemma json_number_exponent:
  assumes "json_unsigned s v"
  shows "json_number (s @ show_exponent x) (v * 10 powi x)"
proof -
  let ?es = "let ds = show_nat (nat \<bar>x\<bar>) in if length ds < 2 then CHR ''0'' # ds else ds"
  have "all_digits ?es" "?es \<noteq> []" "digits_value 10 ?es = nat \<bar>x\<bar>"
    by (simp_all add: Let_def digits_value_Cons digit_value_def c_isdigit_def byte_of_def)
  then show ?thesis
    using json_number.exp_pos [OF assms, of ?es] json_number.exp_neg [OF assms, of ?es]
    by (cases "x < 0") (simp_all add: show_exponent_def)
qed

text \<open>Dropping trailing zeros splits the digits.\<close>

lemma strip_zeros_split: "\<exists>k. ds = strip_zeros ds @ replicate k (CHR ''0'')"
proof -
  let ?z = "takeWhile (\<lambda>c. c = CHR ''0'') (rev ds)"
  have "rev ds = ?z @ dropWhile (\<lambda>c. c = CHR ''0'') (rev ds)" by simp
  then have "ds = strip_zeros ds @ rev ?z"
    unfolding strip_zeros_def by (metis rev_append rev_rev_ident)
  moreover have "?z = replicate (length ?z) (CHR ''0'')"
    by (rule replicate_eqI [symmetric, THEN sym]) (auto dest: set_takeWhileD)
  ultimately show ?thesis by (metis rev_replicate)
qed

section \<open>The general float format\<close>

text \<open>The value the format prints: the magnitude rounded to \<open>p\<close> significant digits.\<close>

definition decimal_round :: "nat \<Rightarrow> rat \<Rightarrow> rat" where
  "decimal_round p r = (let (m, x) = general_digits p r in of_int m * 10 powi (x - (int p - 1)))"

lemma powi10_pos [simp]: "(0 :: rat) < 10 powi k"
  by simp

lemma general_digits_scaled:
  assumes "0 < r" and "1 \<le> p"
  shows "10 ^ (p - 1) \<le> r / 10 powi (ilog 10 r - (int p - 1))"
    and "r / 10 powi (ilog 10 r - (int p - 1)) < 10 ^ p"
proof -
  let ?x = "ilog 10 r" and ?k = "int p - 1"
  have lo: "10 powi ?x \<le> r" and hi: "r < 10 powi (?x + 1)"
    using ilog_bounds [of r 10] assms by auto
  have e1: "10 powi ?x = 10 powi (?x - ?k) * (10 ^ (p - 1) :: rat)"
  proof -
    have "?x = (?x - ?k) + int (p - 1)" using assms(2) by simp
    then have "10 powi ?x = (10 :: rat) powi (?x - ?k) * 10 powi int (p - 1)"
      by (metis power_int_add zero_neq_numeral)
    then show ?thesis by simp
  qed
  have e2: "10 powi (?x + 1) = 10 powi (?x - ?k) * (10 ^ p :: rat)"
  proof -
    have "?x + 1 = (?x - ?k) + int p" by simp
    then have "10 powi (?x + 1) = (10 :: rat) powi (?x - ?k) * 10 powi int p"
      by (metis power_int_add zero_neq_numeral)
    then show ?thesis by simp
  qed
  have pos: "0 < (10 :: rat) powi (?x - ?k)" by simp
  from lo e1 pos show "10 ^ (p - 1) \<le> r / 10 powi (?x - ?k)"
    by (metis mult.commute pos_le_divide_eq)
  from hi e2 pos show "r / 10 powi (?x - ?k) < 10 ^ p"
    by (metis mult.commute pos_divide_less_eq)
qed

lemma general_digits_bounds:
  assumes "0 < r" and "1 \<le> p" and "general_digits p r = (m, x)"
  shows "10 ^ (p - 1) \<le> m" and "m < 10 ^ p"
proof -
  let ?y = "r / 10 powi (ilog 10 r - (int p - 1))"
  have "rhe (of_int (10 ^ (p - 1))) \<le> rhe ?y"
    using general_digits_scaled(1) [OF assms(1,2)] by (intro rhe_mono) simp
  then have lo: "10 ^ (p - 1) \<le> rhe ?y" by (simp only: rhe_of_int)
  have "rhe ?y \<le> rhe (of_int (10 ^ p))"
    using general_digits_scaled(2) [OF assms(1,2)] by (intro rhe_mono) simp
  then have hi: "rhe ?y \<le> 10 ^ p" by (simp only: rhe_of_int)
  have "(10 :: int) ^ (p - 1) < 10 ^ p" using assms(2) by simp
  with lo hi assms(3) show "10 ^ (p - 1) \<le> m" "m < 10 ^ p"
    by (auto simp: general_digits_def Let_def split: if_splits)
qed

text \<open>The printed value is within half a unit of the last printed digit.\<close>

lemma decimal_round_error:
  assumes "0 < r" and "1 \<le> p"
  shows "\<bar>decimal_round p r - r\<bar> \<le> r / (2 * 10 ^ (p - 1))"
proof -
  let ?x = "ilog 10 r" and ?k = "int p - 1"
  let ?u = "10 powi (?x - ?k) :: rat"
  have same: "decimal_round p r = of_int (rhe (r / ?u)) * ?u"
  proof (cases "rhe (r / ?u) = 10 ^ p")
    case True
    have "(10 :: rat) ^ p = 10 ^ (p - 1) * 10" using assms(2) by (simp flip: power_Suc2)
    moreover have "(10 :: rat) powi (?x + 1 - ?k) = ?u * 10"
      by (metis add.commute add_diff_eq power_int_add_1 zero_neq_numeral)
    ultimately show ?thesis using True by (simp add: decimal_round_def general_digits_def)
  next
    case False
    then show ?thesis by (simp add: decimal_round_def general_digits_def Let_def)
  qed
  have upos: "0 < ?u" by simp
  have "\<bar>of_int (rhe (r / ?u)) - r / ?u\<bar> * ?u \<le> 1/2 * ?u"
    using rhe_error by (intro mult_right_mono) auto
  moreover have "\<bar>of_int (rhe (r / ?u)) - r / ?u\<bar> * ?u = \<bar>of_int (rhe (r / ?u)) * ?u - r\<bar>"
  proof -
    have "of_int (rhe (r / ?u)) * ?u - r = (of_int (rhe (r / ?u)) - r / ?u) * ?u"
      using upos by (simp only: left_diff_distrib) simp
    then show ?thesis using upos by (simp only: abs_mult abs_of_pos)
  qed
  ultimately have err: "\<bar>decimal_round p r - r\<bar> \<le> ?u / 2" by (simp add: same)
  have "?u * 10 ^ (p - 1) \<le> r"
    using general_digits_scaled(1) [OF assms] upos by (simp add: pos_le_divide_eq mult.commute)
  then have "?u \<le> r / 10 ^ (p - 1)" by (simp add: pos_le_divide_eq)
  with err show ?thesis by simp
qed

lemma digits_split_value:
  assumes "ds = a @ f @ replicate k (CHR ''0'')" and "length ds = n"
  shows "(of_nat (digits_value 10 (a @ f)) / 10 ^ length f :: rat) =
    of_nat (digits_value 10 ds) * 10 powi (int (length a) - int n)"
proof -
  have v: "digits_value 10 ds = digits_value 10 (a @ f) * 10 ^ k"
    using assms(1) digits_value_append [of 10 "a @ f" "replicate k (CHR ''0'')"] by simp
  have "int (length a) - int n = - int (length f + k)" using assms by auto
  then have "(10 :: rat) powi (int (length a) - int n) = 1 / 10 ^ (length f + k)"
    by (simp only: power_int_minus power_int_of_nat inverse_eq_divide)
  with v show ?thesis by (simp add: power_add)
qed

lemma json_int_take:
  assumes "json_int ds" and "hd ds \<noteq> CHR ''0''" and "0 < k"
  shows "json_int (take k ds)"
proof -
  have "all_digits (take k ds @ drop k ds)" using assms(1) by (simp add: json_int_def)
  then show ?thesis using assms by (simp only: json_int_def all_digits_simps hd_take) auto
qed

lemma all_digits_strip: "all_digits ds \<Longrightarrow> all_digits (strip_zeros ds)"
  using strip_zeros_split [of ds] by (metis all_digits_simps(3))

lemma all_digits_drop: "all_digits ds \<Longrightarrow> all_digits (drop k ds)"
  by (metis all_digits_simps(3) append_take_drop_id)

lemma all_digits_zeros [simp]: "all_digits (replicate k (CHR ''0''))"
  by (simp add: all_digits_def list_all_length c_isdigit_def byte_of_def)

text \<open>Fixed form and scientific form with the point after the first \<open>k\<close> of the digits.\<close>

lemma json_unsigned_point:
  assumes "json_int ds" and "hd ds \<noteq> CHR ''0''" and "0 < k" and "k \<le> length ds"
  shows "json_unsigned (take k ds @ dot_part (strip_zeros (drop k ds)))
    (of_nat (digits_value 10 ds) * 10 powi (int k - int (length ds)))"
proof -
  let ?f = "strip_zeros (drop k ds)"
  obtain z where "drop k ds = ?f @ replicate z (CHR ''0'')" using strip_zeros_split by blast
  then have "ds = take k ds @ ?f @ replicate z (CHR ''0'')" by (metis append_take_drop_id)
  from digits_split_value [OF this refl] assms(4)
  have v: "of_nat (digits_value 10 (take k ds @ ?f)) / 10 ^ length ?f =
      (of_nat (digits_value 10 ds) * 10 powi (int k - int (length ds)) :: rat)" by simp
  have "all_digits ?f" using assms(1) by (simp add: json_int_def all_digits_drop all_digits_strip)
  from json_unsigned_dot [OF json_int_take [OF assms(1,2,3)] this] v show ?thesis by simp
qed

lemma json_unsigned_small:
  assumes "all_digits ds"
  shows "json_unsigned (''0'' @ dot_part (replicate k (CHR ''0'') @ strip_zeros ds))
    (of_nat (digits_value 10 ds) * 10 powi (- int k - int (length ds)))"
proof -
  let ?f = "replicate k (CHR ''0'') @ strip_zeros ds"
  obtain z where z: "ds = strip_zeros ds @ replicate z (CHR ''0'')" using strip_zeros_split by blast
  have v: "digits_value 10 (''0'' @ ?f) = digits_value 10 (strip_zeros ds)"
    by (simp add: digits_value_append digits_value_Cons digit_value_def byte_of_def)
  have "(of_nat (digits_value 10 (strip_zeros ds)) / 10 ^ length (strip_zeros ds) :: rat) =
      of_nat (digits_value 10 ds) * 10 powi (- int (length ds))"
    using digits_split_value [of ds "[]" "strip_zeros ds" z, OF _ refl] z by simp
  moreover have "(10 :: rat) powi (- int k - int (length ds)) = 10 powi (- int (length ds)) / 10 ^ k"
    by (simp add: power_int_diff power_int_minus field_simps)
  ultimately have "(of_nat (digits_value 10 (''0'' @ ?f)) / 10 ^ length ?f :: rat) =
      of_nat (digits_value 10 ds) * 10 powi (- int k - int (length ds))"
    by (simp only: v length_append length_replicate power_add) (simp add: field_simps)
  moreover have "json_int ''0''" by (simp add: json_int_def c_isdigit_def byte_of_def)
  ultimately show ?thesis
    using json_unsigned_dot [of "''0''" ?f] assms by (simp only: all_digits_simps all_digits_zeros all_digits_strip simp_thms)
qed

lemma json_number_general_pos:
  assumes "0 < r" and "1 \<le> p"
  shows "json_number (general_pos p r) (decimal_round p r)"
proof -
  obtain m x where mx: "general_digits p r = (m, x)" by force
  note b = general_digits_bounds [OF assms mx]
  let ?ds = "show_nat (nat m)"
  have m: "0 < m" using b(1) by (metis less_le_trans zero_less_numeral zero_less_power)
  then have ds: "json_int ?ds" "hd ?ds \<noteq> CHR ''0''" "all_digits ?ds"
    by (simp_all add: json_int_show_nat show_nat_hd)
  have len: "length ?ds = p"
  proof -
    obtain k where k: "p = Suc k" using assms(2) by (cases p) auto
    have "10 ^ k \<le> nat m" "nat m < 10 ^ Suc k"
      using b k m by (simp_all add: le_nat_iff nat_less_iff)
    then show ?thesis using k length_show_nat by simp
  qed
  have val: "(of_nat (nat m) :: rat) = of_int m" using m by simp
  consider (sci) "x < - 4 \<or> int p \<le> x" | (whole) "0 \<le> x" "x < int p" | (small) "- 4 \<le> x" "x < 0"
    by linarith
  then show ?thesis
  proof cases
    case sci
    have "json_unsigned (take 1 ?ds @ dot_part (strip_zeros (drop 1 ?ds)))
        (of_int m * 10 powi (1 - int p))"
      using json_unsigned_point [OF ds(1,2), of 1] len assms(2) val by simp
    from json_number_exponent [OF this, of x] sci mx
    show ?thesis by (simp add: general_pos_def decimal_round_def mult.assoc flip: power_int_add)
        (simp add: algebra_simps Let_def)
  next
    case whole
    have "json_unsigned (take (nat x + 1) ?ds @ dot_part (strip_zeros (drop (nat x + 1) ?ds)))
        (of_int m * 10 powi (int (nat x + 1) - int p))"
      using json_unsigned_point [OF ds(1,2), of "nat x + 1"] len whole val by simp
    moreover have "int (nat x + 1) - int p = x - (int p - 1)" using whole by simp
    ultimately show ?thesis
      using whole mx json_number.plain by (simp add: general_pos_def decimal_round_def Let_def algebra_simps)
  next
    case small
    have "json_unsigned (''0'' @ dot_part (replicate (nat (- x) - 1) (CHR ''0'') @ strip_zeros ?ds))
        (of_int m * 10 powi (- int (nat (- x) - 1) - int p))"
      using json_unsigned_small [OF ds(3), of "nat (- x) - 1"] len val by simp
    moreover have "- int (nat (- x) - 1) - int p = x - (int p - 1)" using small by simp
    ultimately show ?thesis
      using small mx json_number.plain assms(2) by (simp add: general_pos_def decimal_round_def Let_def algebra_simps)
  qed
qed

end
