(* ===== verification/ProtocolJson.thy ===== *)
theory ProtocolJson
  imports Protocol DecimalText
begin

text \<open>
  The messages of \<open>AfsimNs3Protocol.cpp\<close> as JSON values. \<open>json_text\<close> is the grammar of
  compact JSON texts (RFC 8259 without white space), with what each text denotes; it knows
  nothing of the writers. The lemmas relate every writer to the value it is meant to encode,
  up to the two messages.
\<close>

section \<open>JSON texts and what they denote\<close>

datatype json =
    JNull
  | JBool bool
  | JNum rat
  | JStr string
  | JArr "json list"
  | JObj "(string \<times> json) list"

text \<open>The body of a string literal and the bytes it stands for.\<close>

inductive string_body :: "string \<Rightarrow> string \<Rightarrow> bool" where
  body_nil: "string_body [] []"
| body_plain: "c \<noteq> dquote \<Longrightarrow> c \<noteq> bslash \<Longrightarrow> 32 \<le> byte_of c \<Longrightarrow> string_body s t \<Longrightarrow>
    string_body (c # s) (c # t)"
| body_escape: "(e, c) \<in> {(dquote, dquote), (bslash, bslash), (CHR ''/'', CHR ''/''),
      (CHR ''b'', CHR 0x08), (CHR ''f'', CHR 0x0C), (CHR ''n'', newline),
      (CHR ''r'', carriage), (CHR ''t'', CHR 0x09)} \<Longrightarrow> string_body s t \<Longrightarrow>
    string_body (bslash # e # s) (c # t)"
| body_unicode: "length h = 4 \<Longrightarrow> list_all c_isxdigit h \<Longrightarrow> digits_value 16 h < 128 \<Longrightarrow>
    string_body s t \<Longrightarrow>
    string_body (bslash # CHR ''u'' # h @ s) (char_of (digits_value 16 h) # t)"

fun commas :: "string list \<Rightarrow> string" where
  "commas [] = []"
| "commas [s] = s"
| "commas (s # t # ts) = s @ '','' @ commas (t # ts)"

inductive json_text :: "string \<Rightarrow> json \<Rightarrow> bool" where
  text_null: "json_text ''null'' JNull"
| text_true: "json_text ''true'' (JBool True)"
| text_false: "json_text ''false'' (JBool False)"
| text_number: "json_number s v \<Longrightarrow> json_text s (JNum v)"
| text_string: "string_body s t \<Longrightarrow> json_text ([dquote] @ s @ [dquote]) (JStr t)"
| text_array: "list_all2 json_text ts vs \<Longrightarrow> json_text (''['' @ commas ts @ '']'') (JArr vs)"
| text_object: "list_all2 (\<lambda>t kv. \<exists>ks s. t = [dquote] @ ks @ [dquote, CHR '':''] @ s \<and>
      string_body ks (fst kv) \<and> json_text s (snd kv)) ts kvs \<Longrightarrow>
    json_text (''{'' @ commas ts @ ''}'') (JObj kvs)"

section \<open>The values the messages encode\<close>

text \<open>A double is sent rounded to 15 significant digits.\<close>

definition sent_value :: "double \<Rightarrow> rat" where
  "sent_value x =
     (if dval x = 0 then 0
      else if 0 < dval x then decimal_round 15 (dval x) else - decimal_round 15 (- dval x))"

definition device_json :: "DeviceConfig \<Rightarrow> json" where
  "device_json d = JObj
     [(''device_id'', JStr (dev_deviceId d)),
      (''peer_entity_id'', JStr (dev_peerEntityId d)),
      (''kind'', JStr (dev_kind d)),
      (''data_rate_bps'', JNum (of_nat (unat (dev_dataRateBps d)))),
      (''delay_ms'', JNum (sent_value (dev_delayMs d))),
      (''loss_rate'', JNum (sent_value (dev_lossRate d))),
      (''link_state'', JStr (dev_linkState d))]"

definition policy_json :: "EffectPolicy \<Rightarrow> json" where
  "policy_json p = JObj
     [(''subsystem_id'', JStr (pol_subsystemId p)),
      (''subsystem_type'', JStr (pol_subsystemType p)),
      (''peer_entity_id'', JStr (pol_peerEntityId p)),
      (''max_delay_ms'', JNum (sent_value (pol_maxDelayMs p))),
      (''max_loss_rate'', JNum (sent_value (pol_maxLossRate p))),
      (''min_throughput_bps'', JNum (sent_value (pol_minThroughputBps p))),
      (''violation_state'', JStr (pol_violationState p))]"

definition entity_json :: "EntityState \<Rightarrow> json" where
  "entity_json e = JObj
     [(''entity_id'', JStr (ent_entityId e)),
      (''business_node_id'', JStr (ent_businessNodeId e)),
      (''parent_entity_id'', if ent_hasParent e then JStr (ent_parentEntityId e) else JNull),
      (''position'', JObj
        [(''x_m'', JNum (sent_value (xM (ent_position e)))),
         (''y_m'', JNum (sent_value (yM (ent_position e)))),
         (''z_m'', JNum (sent_value (zM (ent_position e))))]),
      (''velocity'', JObj
        [(''vx_mps'', JNum (sent_value (vxMps (ent_velocity e)))),
         (''vy_mps'', JNum (sent_value (vyMps (ent_velocity e)))),
         (''vz_mps'', JNum (sent_value (vzMps (ent_velocity e))))]),
      (''heading_deg'', JNum (sent_value (ent_headingDeg e))),
      (''alive'', JBool (ent_alive e)),
      (''devices'', JArr (map device_json (ent_devices e))),
      (''effect_policies'', JArr (map policy_json (ent_effectPolicies e)))]"

definition flow_json :: "FlowConfig \<Rightarrow> json" where
  "flow_json f = JObj
     [(''flow_id'', JStr (flow_flowId f)),
      (''source_entity_id'', JStr (flow_sourceEntityId f)),
      (''target_entity_id'', JStr (flow_targetEntityId f)),
      (''packet_size_bytes'', JNum (of_nat (unat (flow_packetSizeBytes f)))),
      (''interval_ms'', JNum (of_nat (unat (flow_intervalMs f)))),
      (''duration_ms'', JNum (of_nat (unat (flow_durationMs f)))),
      (''active'', JBool (flow_active f))]"

definition envelope_json :: "string \<Rightarrow> string \<Rightarrow> u64 \<Rightarrow> (string \<times> json) list" where
  "envelope_json messageType requestId timestampMs =
     [(''protocol_version'', JStr ''0.2''),
      (''message_type'', JStr messageType),
      (''request_id'', JStr requestId),
      (''timestamp_ms'', JNum (of_nat (unat timestampMs)))]"

definition init_json :: "string \<Rightarrow> u64 \<Rightarrow> EntityState list \<Rightarrow> FlowConfig list \<Rightarrow> json" where
  "init_json requestId timestampMs entities flows = JObj
     (envelope_json ''afsim_init'' requestId timestampMs @
      [(''entities'', JArr (map entity_json entities)),
       (''flows'', JArr (map flow_json flows))])"

definition delta_json :: "string \<Rightarrow> u64 \<Rightarrow> DeltaState \<Rightarrow> json" where
  "delta_json requestId timestampMs delta = JObj
     (envelope_json ''afsim_delta'' requestId timestampMs @
      [(''entity_upserts'', JArr (map entity_json (entityUpserts delta))),
       (''entity_removals'', JArr (map JStr (entityRemovals delta))),
       (''flow_upserts'', JArr (map flow_json (flowUpserts delta))),
       (''flow_removals'', JArr (map JStr (flowRemovals delta)))])"

text \<open>The states whose doubles are all finite: JSON has no text for the other values.\<close>

definition device_finite :: "DeviceConfig \<Rightarrow> bool" where
  "device_finite d \<longleftrightarrow> isfinite (dev_delayMs d) \<and> isfinite (dev_lossRate d)"

definition policy_finite :: "EffectPolicy \<Rightarrow> bool" where
  "policy_finite p \<longleftrightarrow> isfinite (pol_maxDelayMs p) \<and> isfinite (pol_maxLossRate p) \<and>
     isfinite (pol_minThroughputBps p)"

definition entity_finite :: "EntityState \<Rightarrow> bool" where
  "entity_finite e \<longleftrightarrow>
     isfinite (xM (ent_position e)) \<and> isfinite (yM (ent_position e)) \<and> isfinite (zM (ent_position e)) \<and>
     isfinite (vxMps (ent_velocity e)) \<and> isfinite (vyMps (ent_velocity e)) \<and>
     isfinite (vzMps (ent_velocity e)) \<and> isfinite (ent_headingDeg e) \<and>
     list_all device_finite (ent_devices e) \<and> list_all policy_finite (ent_effectPolicies e)"

section \<open>The writers\<close>

lemma string_body_quote_char:
  assumes "string_body s t"
  shows "string_body (quote_char c @ s) (c # t)"
proof -
  have uni: "string_body (bslash # CHR ''u'' # hex4 (byte_of c) @ s) (c # t)" if "byte_of c < 32"
  proof -
    have hex: "hex_digit n \<in> {''0123456789abcdef'' ! n}" for n by (simp add: hex_digit_def)
    have cases: "n < 16 \<Longrightarrow> c_isxdigit (hex_digit n) \<and> digit_value (hex_digit n) = n" for n
    proof -
      assume "n < 16"
      then have "n < 10 \<or> n = 10 \<or> n = 11 \<or> n = 12 \<or> n = 13 \<or> n = 14 \<or> n = 15" by arith
      then show ?thesis
        by (auto dest!: less_10_cases
            simp: hex_digit_def c_isxdigit_def c_isdigit_def digit_value_def byte_of_def)
    qed
    let ?h = "hex4 (byte_of c)"
    have v: "digits_value 16 ?h = byte_of c"
      using cases [of "byte_of c div 16"] cases [of "byte_of c mod 16"] that
      by (simp add: hex4_def digits_value_Cons digit_value_def [of "CHR ''0''"])
        (simp add: byte_of_def)
    have "list_all c_isxdigit ?h"
      using cases [of "byte_of c div 16"] cases [of "byte_of c mod 16"] that
      by (simp add: hex4_def) (simp add: c_isxdigit_def c_isdigit_def byte_of_def)
    from body_unicode [OF _ this _ assms] v that
    show ?thesis by (simp add: hex4_def byte_of_def)
  qed
  show ?thesis
  proof (cases "(\<exists>e. quote_char c = [bslash, e])")
    case True
    then show ?thesis using assms body_escape [of _ c s t]
      by (simp add: quote_char_def hex4_def split: if_splits)
  next
    case False
    then show ?thesis using body_plain [of c s t] assms uni
      by (simp add: quote_char_def not_less split: if_splits)
  qed
qed

lemma string_body_quoted: "string_body (concat (map quote_char s)) s"
  by (induction s) (auto intro: body_nil string_body_quote_char)

lemma json_text_Quote: "json_text (Quote s) (JStr s)"
  using text_string [OF string_body_quoted [of s]] by (simp add: Quote_def)

lemma json_text_Boolean: "json_text (Boolean b) (JBool b)"
  using text_true text_false by (cases b) (simp_all add: Boolean_def)

lemma json_text_word: "json_text (put_word n) (JNum (of_nat (unat n)))"
  by (intro text_number json_number_show_nat)

lemma general_pos_hd:
  assumes "0 < r" and "1 \<le> p"
  shows "hd (general_pos p r) \<noteq> CHR ''-''"
proof -
  have "hd (show_nat n) \<noteq> CHR ''-''" for n
  proof -
    have "c_isdigit (hd (show_nat n))"
      using all_digits_show_nat [of n] show_nat_nonempty [of n]
      by (cases "show_nat n") (simp_all add: all_digits_def del: all_digits_show_nat)
    then show ?thesis by (auto simp: c_isdigit_def byte_of_def)
  qed
  moreover have "take 1 (show_nat n) \<noteq> []" "take (Suc k) (show_nat n) \<noteq> []" for n k by simp_all
  ultimately show ?thesis
    by (simp add: general_pos_def Let_def hd_append hd_take split: prod.split)
qed

lemma json_text_double:
  assumes "isfinite x"
  shows "json_text (put_double x) (JNum (sent_value x))"
proof -
  have zero: "json_number ''0'' 0"
    using json_number_show_nat [of 0] by (simp add: show_nat.simps digit_char_def)
  have "json_number (put_double x) (sent_value x)"
  proof (cases x)
    case NegZero
    then show ?thesis using json_number.minus [OF zero] by (simp add: sent_value_def)
  next
    case (Fin r)
    consider "r = 0" | "0 < r" | "r < 0" by linarith
    then show ?thesis
    proof cases
      case 1
      then show ?thesis using Fin zero by (simp add: sent_value_def)
    next
      case 2
      then show ?thesis using Fin json_number_general_pos [of r 15] by (simp add: sent_value_def)
    next
      case 3
      then have "json_number (CHR ''-'' # general_pos 15 (- r)) (- decimal_round 15 (- r))"
        by (intro json_number.minus json_number_general_pos general_pos_hd) auto
      then show ?thesis using Fin 3 by (simp add: sent_value_def)
    qed
  qed (use assms in auto)
  then show ?thesis by (rule text_number)
qed

text \<open>What is sent differs from the double by at most five units in the sixteenth digit.\<close>

lemma sent_value_error: "\<bar>sent_value x - dval x\<bar> \<le> \<bar>dval x\<bar> * (5 / 10 ^ 15)"
  using decimal_round_error [of "dval x" 15] decimal_round_error [of "- dval x" 15]
  by (auto simp: sent_value_def abs_if split: if_splits)

section \<open>The objects\<close>

text \<open>An object text from the texts of its members.\<close>

definition member_text :: "string \<times> string \<Rightarrow> string" where
  "member_text kt = [dquote] @ fst kt @ [dquote, CHR '':''] @ snd kt"

definition plain_key :: "string \<Rightarrow> bool" where
  "plain_key k \<longleftrightarrow> list_all (\<lambda>c. c \<noteq> dquote \<and> c \<noteq> bslash \<and> 32 \<le> byte_of c) k"

lemma string_body_plain: "plain_key k \<Longrightarrow> string_body k k"
  by (induction k) (auto simp: plain_key_def intro: body_nil body_plain)

lemma json_text_members:
  assumes "list_all2 (\<lambda>kt kv. fst kt = fst kv \<and> plain_key (fst kt) \<and> json_text (snd kt) (snd kv)) kts kvs"
  shows "json_text (''{'' @ commas (map member_text kts) @ ''}'') (JObj kvs)"
proof (rule text_object)
  show "list_all2 (\<lambda>t kv. \<exists>ks s. t = [dquote] @ ks @ [dquote, CHR '':''] @ s \<and>
      string_body ks (fst kv) \<and> json_text s (snd kv)) (map member_text kts) kvs"
    using assms unfolding list_all2_map1
  proof (rule list_all2_mono)
    fix kt :: "string \<times> string" and kv :: "string \<times> json"
    assume "fst kt = fst kv \<and> plain_key (fst kt) \<and> json_text (snd kt) (snd kv)"
    then show "\<exists>ks s. member_text kt = [dquote] @ ks @ [dquote, CHR '':''] @ s \<and>
        string_body ks (fst kv) \<and> json_text s (snd kv)"
      unfolding member_text_def using string_body_plain by metis
  qed
qed

lemma write_rest_commas: "write_rest writer False vs = (if vs = [] then [] else '','' @ commas (map writer vs))"
proof (induction vs)
  case Nil
  then show ?case by simp
next
  case (Cons v vs)
  then show ?case by (cases vs) simp_all
qed

lemma commas_Cons: "commas (s # ts) = s @ (if ts = [] then [] else '','' @ commas ts)"
  by (cases ts) simp_all

lemma WriteArray_commas: "WriteArray vs writer = ''['' @ commas (map writer vs) @ '']''"
  by (cases vs) (simp_all add: WriteArray_def write_rest_commas commas_Cons del: commas.simps(3))

lemma json_text_WriteArray:
  assumes "\<And>v. v \<in> set vs \<Longrightarrow> json_text (writer v) (value v)"
  shows "json_text (WriteArray vs writer) (JArr (map value vs))"
  unfolding WriteArray_commas
  by (rule text_array) (simp add: list_all2_map1 list_all2_map2 list.rel_refl_strong assms)

lemmas json_leaf = json_text_Quote json_text_Boolean json_text_word json_text_word [simplified]
  json_text_double text_null

lemma json_text_WriteDevice:
  assumes "device_finite d"
  shows "json_text (WriteDevice d) (device_json d)"
proof -
  have "WriteDevice d = ''{'' @ commas (map member_text
     [(''device_id'', Quote (dev_deviceId d)),
      (''peer_entity_id'', Quote (dev_peerEntityId d)),
      (''kind'', Quote (dev_kind d)),
      (''data_rate_bps'', put_word (dev_dataRateBps d)),
      (''delay_ms'', put_double (dev_delayMs d)),
      (''loss_rate'', put_double (dev_lossRate d)),
      (''link_state'', Quote (dev_linkState d))]) @ ''}''"
    by (simp add: WriteDevice_def member_text_def)
  then show ?thesis
    using assms unfolding device_json_def
    by (simp only:) (rule json_text_members,
      simp add: plain_key_def json_leaf device_finite_def byte_of_def)
qed

lemma json_text_WritePolicy:
  assumes "policy_finite p"
  shows "json_text (WritePolicy p) (policy_json p)"
proof -
  have "WritePolicy p = ''{'' @ commas (map member_text
     [(''subsystem_id'', Quote (pol_subsystemId p)),
      (''subsystem_type'', Quote (pol_subsystemType p)),
      (''peer_entity_id'', Quote (pol_peerEntityId p)),
      (''max_delay_ms'', put_double (pol_maxDelayMs p)),
      (''max_loss_rate'', put_double (pol_maxLossRate p)),
      (''min_throughput_bps'', put_double (pol_minThroughputBps p)),
      (''violation_state'', Quote (pol_violationState p))]) @ ''}''"
    by (simp add: WritePolicy_def member_text_def)
  then show ?thesis
    using assms unfolding policy_json_def
    by (simp only:) (rule json_text_members,
      simp add: plain_key_def json_leaf policy_finite_def byte_of_def)
qed

lemma json_text_WriteFlow: "json_text (WriteFlow f) (flow_json f)"
proof -
  have "WriteFlow f = ''{'' @ commas (map member_text
     [(''flow_id'', Quote (flow_flowId f)),
      (''source_entity_id'', Quote (flow_sourceEntityId f)),
      (''target_entity_id'', Quote (flow_targetEntityId f)),
      (''packet_size_bytes'', put_word (flow_packetSizeBytes f)),
      (''interval_ms'', put_word (flow_intervalMs f)),
      (''duration_ms'', put_word (flow_durationMs f)),
      (''active'', Boolean (flow_active f))]) @ ''}''"
    by (simp add: WriteFlow_def member_text_def)
  then show ?thesis
    unfolding flow_json_def
    by (simp only:) (rule json_text_members, simp add: plain_key_def json_leaf byte_of_def)
qed

lemma json_text_vector:
  assumes "isfinite x" and "isfinite y" and "isfinite z" and "plain_key a" "plain_key b" "plain_key c"
  shows "json_text (''{'' @ commas (map member_text
      [(a, put_double x), (b, put_double y), (c, put_double z)]) @ ''}'')
    (JObj [(a, JNum (sent_value x)), (b, JNum (sent_value y)), (c, JNum (sent_value z))])"
  by (rule json_text_members) (simp add: json_leaf assms)

lemma json_text_WriteEntity:
  assumes "entity_finite e"
  shows "json_text (WriteEntity e) (entity_json e)"
proof -
  let ?p = "ent_position e" and ?v = "ent_velocity e"
  have "WriteEntity e = ''{'' @ commas (map member_text
     [(''entity_id'', Quote (ent_entityId e)),
      (''business_node_id'', Quote (ent_businessNodeId e)),
      (''parent_entity_id'',
        if ent_hasParent e then Quote (ent_parentEntityId e) else ''null''),
      (''position'', ''{'' @ commas (map member_text
        [(''x_m'', put_double (xM ?p)), (''y_m'', put_double (yM ?p)), (''z_m'', put_double (zM ?p))]) @ ''}''),
      (''velocity'', ''{'' @ commas (map member_text
        [(''vx_mps'', put_double (vxMps ?v)), (''vy_mps'', put_double (vyMps ?v)),
         (''vz_mps'', put_double (vzMps ?v))]) @ ''}''),
      (''heading_deg'', put_double (ent_headingDeg e)),
      (''alive'', Boolean (ent_alive e)),
      (''devices'', WriteArray (ent_devices e) WriteDevice),
      (''effect_policies'', WriteArray (ent_effectPolicies e) WritePolicy)]) @ ''}''"
    by (simp add: WriteEntity_def member_text_def)
  moreover have "json_text (WriteArray (ent_devices e) WriteDevice) (JArr (map device_json (ent_devices e)))"
    using assms by (intro json_text_WriteArray json_text_WriteDevice)
      (simp add: entity_finite_def list_all_iff)
  moreover have "json_text (WriteArray (ent_effectPolicies e) WritePolicy)
      (JArr (map policy_json (ent_effectPolicies e)))"
    using assms by (intro json_text_WriteArray json_text_WritePolicy)
      (simp add: entity_finite_def list_all_iff)
  moreover note json_text_vector [of "xM ?p" "yM ?p" "zM ?p" "''x_m''" "''y_m''" "''z_m''"]
  moreover note json_text_vector [of "vxMps ?v" "vyMps ?v" "vzMps ?v" "''vx_mps''" "''vy_mps''" "''vz_mps''"]
  ultimately show ?thesis
    using assms unfolding entity_json_def
    by (simp only:) (rule json_text_members,
      simp add: plain_key_def json_leaf entity_finite_def byte_of_def)
qed

lemma json_text_WriteStrings: "json_text (WriteStrings vs) (JArr (map JStr vs))"
  unfolding WriteStrings_def by (intro json_text_WriteArray json_text_Quote)

lemma json_text_BuildInitMessage:
  assumes "list_all entity_finite entities"
  shows "json_text (BuildInitMessage requestId timestampMs entities flows)
    (init_json requestId timestampMs entities flows)"
proof -
  have "BuildInitMessage requestId timestampMs entities flows = ''{'' @ commas (map member_text
     [(''protocol_version'', Quote ''0.2''), (''message_type'', Quote ''afsim_init''),
      (''request_id'', Quote requestId), (''timestamp_ms'', put_word timestampMs),
      (''entities'', WriteArray entities WriteEntity), (''flows'', WriteArray flows WriteFlow)]) @ ''}''"
    by (simp add: BuildInitMessage_def WriteEnvelope_def member_text_def Quote_def quote_char_def byte_of_def)
  moreover have "json_text (WriteArray entities WriteEntity) (JArr (map entity_json entities))"
    using assms by (intro json_text_WriteArray json_text_WriteEntity) (simp add: list_all_iff)
  moreover have "json_text (WriteArray flows WriteFlow) (JArr (map flow_json flows))"
    by (intro json_text_WriteArray json_text_WriteFlow)
  ultimately show ?thesis
    unfolding init_json_def envelope_json_def
    by (simp only: append_Cons append_Nil) (rule json_text_members [unfolded append_Cons append_Nil],
      simp add: plain_key_def json_leaf byte_of_def)
qed

lemma json_text_BuildDeltaMessage:
  assumes "list_all entity_finite (entityUpserts delta)"
  shows "json_text (BuildDeltaMessage requestId timestampMs delta)
    (delta_json requestId timestampMs delta)"
proof -
  have "BuildDeltaMessage requestId timestampMs delta = ''{'' @ commas (map member_text
     [(''protocol_version'', Quote ''0.2''), (''message_type'', Quote ''afsim_delta''),
      (''request_id'', Quote requestId), (''timestamp_ms'', put_word timestampMs),
      (''entity_upserts'', WriteArray (entityUpserts delta) WriteEntity),
      (''entity_removals'', WriteStrings (entityRemovals delta)),
      (''flow_upserts'', WriteArray (flowUpserts delta) WriteFlow),
      (''flow_removals'', WriteStrings (flowRemovals delta))]) @ ''}''"
    by (simp add: BuildDeltaMessage_def WriteEnvelope_def member_text_def Quote_def quote_char_def byte_of_def)
  moreover have "json_text (WriteArray (entityUpserts delta) WriteEntity)
      (JArr (map entity_json (entityUpserts delta)))"
    using assms by (intro json_text_WriteArray json_text_WriteEntity) (simp add: list_all_iff)
  moreover have "json_text (WriteArray (flowUpserts delta) WriteFlow) (JArr (map flow_json (flowUpserts delta)))"
    by (intro json_text_WriteArray json_text_WriteFlow)
  ultimately show ?thesis
    unfolding delta_json_def envelope_json_def
    by (simp only: append_Cons append_Nil) (rule json_text_members [unfolded append_Cons append_Nil],
      simp add: plain_key_def json_leaf json_text_WriteStrings byte_of_def)
qed

text \<open>
  C10. When the doubles of the state are finite, the full snapshot is a JSON text that
  denotes the protocol's \<open>afsim_init\<close> object: every field under its name, in order, every
  string byte for byte after unescaping, every integer exactly and every double rounded to
  15 significant digits.
\<close>

theorem init_message_encodes_state:
  assumes "list_all entity_finite entities"
  shows "json_text (BuildInitMessage requestId timestampMs entities flows)
    (init_json requestId timestampMs entities flows)"
  using assms by (rule json_text_BuildInitMessage)

definition sample_entity :: EntityState where
  "sample_entity = empty_entity\<lparr>ent_entityId := [dquote, newline],
     ent_position := \<lparr>xM = Fin (1 / 2), yM = NegZero, zM = Fin 1000000\<rparr>,
     ent_devices := [empty_device\<lparr>dev_dataRateBps := - 1\<rparr>], ent_effectPolicies := [empty_policy]\<rparr>"

lemmas finite_defs = entity_finite_def device_finite_def policy_finite_def
  empty_entity_def empty_device_def empty_policy_def sample_entity_def

theorem init_message_encodes_state_witness:
  "json_text (BuildInitMessage ''r'' 7 [sample_entity] [empty_flow])
    (init_json ''r'' 7 [sample_entity] [empty_flow])"
  by (rule init_message_encodes_state) (simp add: finite_defs)

text \<open>
  C11. When the doubles of the upserted entities are finite, a delta message is a JSON text
  that denotes the protocol's \<open>afsim_delta\<close> object with the four change lists.
\<close>

theorem delta_message_encodes_changes:
  assumes "list_all entity_finite (entityUpserts delta)"
  shows "json_text (BuildDeltaMessage requestId timestampMs delta)
    (delta_json requestId timestampMs delta)"
  using assms by (rule json_text_BuildDeltaMessage)

theorem delta_message_encodes_changes_witness:
  "json_text (BuildDeltaMessage ''r'' 7 (empty_delta\<lparr>entityUpserts := [sample_entity],
      entityRemovals := [[bslash]]\<rparr>))
    (delta_json ''r'' 7 (empty_delta\<lparr>entityUpserts := [sample_entity], entityRemovals := [[bslash]]\<rparr>))"
  by (rule delta_message_encodes_changes) (simp add: finite_defs)

end
