(* ===== verification/ScanFacts.thy ===== *)
theory ScanFacts
  imports JsonScan ProtocolJson
begin

text \<open>
  What the field scanner computes: each position loop as a function of the rest of the text,
  and the values read from JSON texts. The central notion is a text that is neutral for a
  pair of brackets: the bracket counter of \<^const>\<open>MatchingEnd\<close> passes over it unchanged.
  Every JSON text is neutral, whatever its strings contain.
\<close>

section \<open>Loops over the rest of the text\<close>

lemma drop_Cons_nth: "pos < length json \<Longrightarrow> drop pos json = json ! pos # drop (pos + 1) json"
  by (simp add: Cons_nth_drop_Suc)

lemma skip_spaces_drop: "skip_spaces json pos = pos + length (takeWhile c_isspace (drop pos json))"
proof (induction json pos rule: skip_spaces.induct)
  case (1 json pos)
  then show ?case
    by (cases "pos < length json") (auto simp: skip_spaces.simps [of json pos] drop_Cons_nth)
qed

fun read_body :: "string \<Rightarrow> string \<Rightarrow> string result" where
  "read_body [] result = Inl unterminated_string"
| "read_body (c # cs) result =
     (if c = dquote then Inr result
      else if c \<noteq> bslash then read_body cs (result @ [c])
      else
        (case cs of [] \<Rightarrow> Inl unterminated_string
        | e # ds \<Rightarrow>
            (case unescape e of None \<Rightarrow> Inl unsupported_escape
            | Some d \<Rightarrow> read_body ds (result @ [d]))))"

lemma string_loop_drop: "string_loop json pos result = read_body (drop pos json) result"
proof (induction "length json - pos" arbitrary: pos result rule: less_induct)
  case less
  show ?case
  proof (cases "pos < length json")
    case False
    then show ?thesis by (simp add: string_loop.simps [of json pos])
  next
    case True
    have IH1: "string_loop json (pos + 1) r = read_body (drop (pos + 1) json) r" for r
      using less [of "pos + 1"] True by simp
    have IH2: "string_loop json (pos + 1 + 1) r = read_body (drop (pos + 1 + 1) json) r" for r
      using less [of "pos + 1 + 1"] True by simp
    have d2: "drop (pos + 1) json = (if length json \<le> pos + 1 then [] else json ! (pos + 1) # drop (pos + 1 + 1) json)"
      by (simp add: Cons_nth_drop_Suc)
    show ?thesis
      unfolding drop_Cons_nth [OF True] string_loop.simps [of json pos] IH1 IH2 read_body.simps Let_def
      unfolding d2 using True by (simp split: option.split)
  qed
qed

fun read_digits :: "string \<Rightarrow> u64 \<Rightarrow> u64 result" where
  "read_digits [] value = Inr value"
| "read_digits (c # cs) value =
     (if c_isdigit c then
        (if (- 1 - of_nat (digit_value c)) div 10 < value then Inl uint64_range
         else read_digits cs (value * 10 + of_nat (digit_value c)))
      else Inr value)"

lemma digit_loop_drop: "digit_loop json pos v = read_digits (drop pos json) v"
proof (induction json pos v rule: digit_loop.induct)
  case (1 json pos v)
  then show ?case
    by (cases "pos < length json") (auto simp: digit_loop.simps [of json pos] drop_Cons_nth Let_def)
qed

section \<open>Finding the value of a field\<close>

lemma str_find_char:
  assumes "c \<notin> set xs" and "json = pre @ xs @ c # rest"
  shows "str_find [c] json (length pre) = Some (length pre + length xs)"
  using find_prefix_skip [OF assms(1), of "[]" "c # rest"] assms(2)
  by (simp add: str_find_def)

lemma ValueStart_at:
  assumes "str_find ([dquote] @ key @ [dquote]) json start = Some (length pre)"
    and "json = pre @ [dquote] @ key @ [dquote] @ gap @ '':'' @ ws @ rest"
    and "CHR '':'' \<notin> set gap" and "list_all c_isspace ws"
    and "rest = [] \<or> \<not> c_isspace (hd rest)"
  shows "ValueStart json key start = Inr (length (pre @ [dquote] @ key @ [dquote] @ gap @ '':'' @ ws))"
    and "drop (length (pre @ [dquote] @ key @ [dquote] @ gap @ '':'' @ ws)) json = rest"
proof -
  let ?front = "pre @ [dquote] @ key @ [dquote]"
  have "str_find '':'' json (length ?front) = Some (length ?front + length gap)"
    using str_find_char [OF assms(3), of json ?front "ws @ rest"] assms(2) by simp
  moreover have "skip_spaces json (length ?front + length gap + 1) =
      length ?front + length gap + 1 + length ws"
  proof -
    have "length ?front + length gap + 1 = length (?front @ gap @ '':'')" by simp
    moreover have "drop (length (?front @ gap @ '':'')) json = ws @ rest"
      unfolding assms(2) by (metis append.assoc append_eq_conv_conj)
    ultimately have "drop (length ?front + length gap + 1) json = ws @ rest" by (simp add: add.assoc)
    moreover have "takeWhile c_isspace (ws @ rest) = ws"
      using assms(4,5) by (cases rest) (auto simp: list_all_iff takeWhile_append)
    ultimately show ?thesis by (simp add: skip_spaces_drop)
  qed
  ultimately show "ValueStart json key start = Inr (length (pre @ [dquote] @ key @ [dquote] @ gap @ '':'' @ ws))"
    using assms(1) by (simp add: ValueStart_def)
  show "drop (length (pre @ [dquote] @ key @ [dquote] @ gap @ '':'' @ ws)) json = rest"
    unfolding assms(2) by (metis append.assoc append_eq_conv_conj)
qed

section \<open>Strings\<close>

text \<open>The bytes whose escapes the reader understands.\<close>

definition readable :: "char \<Rightarrow> bool" where
  "readable c \<longleftrightarrow> 32 \<le> byte_of c \<or> byte_of c \<in> {8, 9, 10, 12, 13}"

lemma byte_of_inject: "byte_of c = byte_of d \<longleftrightarrow> c = d"
  by (simp add: byte_of_def)

lemma readable_iff:
  "readable c \<longleftrightarrow> 32 \<le> byte_of c \<or> c = CHR 0x08 \<or> c = CHR 0x09 \<or> c = newline \<or> c = CHR 0x0C \<or> c = carriage"
  using byte_of_inject [of c "CHR 0x08"] byte_of_inject [of c "CHR 0x09"] byte_of_inject [of c newline]
    byte_of_inject [of c "CHR 0x0C"] byte_of_inject [of c carriage]
  by (simp add: readable_def byte_of_def)

lemma read_quote_char:
  "read_body (quote_char c @ cs) result =
    (if readable c then read_body cs (result @ [c]) else Inl unsupported_escape)"
proof (cases "32 \<le> byte_of c")
  case True
  then have "c \<noteq> CHR 0x08" "c \<noteq> CHR 0x09" "c \<noteq> newline" "c \<noteq> CHR 0x0C" "c \<noteq> carriage"
    by (auto simp: byte_of_def)
  with True show ?thesis by (simp add: quote_char_def readable_def unescape_def)
next
  case False
  then have "c \<noteq> dquote" "c \<noteq> bslash" by auto
  with False show ?thesis by (simp add: quote_char_def readable_iff unescape_def)
qed

lemma read_Quote:
  "read_body (concat (map quote_char s) @ [dquote] @ tail) result =
    (if list_all readable s then Inr (result @ s) else Inl unsupported_escape)"
  by (induction s arbitrary: result) (simp_all add: read_quote_char)

text \<open>
  C22. A field written with the protocol writer's string escaping is read back exactly, for
  every string of printable bytes and the five control bytes with a short escape; a string
  with any other control byte is rejected with an exception, because the reader does not
  know the \<open>\u\<close> escape that the writer uses for it.
\<close>

theorem JsonString_reads_Quote:
  assumes "str_find ([dquote] @ key @ [dquote]) json start = Some (length pre)"
    and "json = pre @ [dquote] @ key @ [dquote] @ '':'' @ Quote s @ tail"
  shows "JsonString json key start =
    (if list_all readable s then Inr s else Inl unsupported_escape)"
proof -
  let ?p = "length (pre @ [dquote] @ key @ [dquote] @ '':'')"
  have "ValueStart json key start = Inr ?p" and rest: "drop ?p json = Quote s @ tail"
    using ValueStart_at [of key json start pre "[]" "[]" "Quote s @ tail"] assms
    by (simp_all add: Quote_def c_isspace_def)
  moreover have "\<not> length json \<le> ?p" using assms(2) by (simp add: Quote_def)
  moreover have "json ! ?p = dquote"
    using rest calculation(3) by (simp add: Quote_def drop_Cons_nth not_le)
  moreover have "drop (?p + 1) json = concat (map quote_char s) @ [dquote] @ tail"
    using rest by (metis Quote_def append_Cons append_Nil drop_Suc_Cons drop0 drop_drop Suc_eq_plus1
        append.assoc plus_1_eq_Suc)
  ultimately show ?thesis
    using read_Quote [of s tail "[]"]
    by (simp only: JsonString_def rbind_simps string_loop_drop if_False simp_thms append_Nil)
qed

theorem JsonString_reads_Quote_witness:
  "JsonString (''{'' @ [dquote] @ ''id'' @ [dquote] @ '':'' @ Quote [dquote, newline] @ ''}'') ''id'' 0
    = Inr [dquote, newline]"
proof -
  have "str_find ([dquote] @ ''id'' @ [dquote])
      (''{'' @ [dquote] @ ''id'' @ [dquote] @ '':'' @ Quote [dquote, newline] @ ''}'') 0 = Some (length ''{'')"
    by (simp add: str_find_def)
  from JsonString_reads_Quote [OF this refl] show ?thesis
    by (simp add: readable_def byte_of_def)
qed

section \<open>Unsigned integers\<close>

lemma unat_digit: "d < 10 \<Longrightarrow> unat (of_nat d :: u64) = d"
  using take_bit_nat_eq_self [of d 64] by (simp only: unsigned_of_nat) simp

lemma room_for_digit: "(18446744073709551615 - d) div 10 < (v :: nat) \<longleftrightarrow> 18446744073709551616 \<le> v * 10 + d"
  if "d < 10" for d :: nat
  using that by (simp add: div_less_iff_less_mult) linarith

lemma overflow_test:
  assumes "d < 10"
  shows "(- 1 - of_nat d) div 10 < (v :: u64) \<longleftrightarrow> 2 ^ 64 \<le> unat v * 10 + d"
proof -
  have "unat (- 1 - of_nat d :: u64) = unat (- 1 :: u64) - unat (of_nat d :: u64)"
    by (rule unat_sub) (rule word_n1_ge)
  moreover have "unat (- 1 :: u64) = 18446744073709551615"
    by (simp add: unsigned_minus_1_eq_mask mask_eq_exp_minus_1)
  ultimately have "unat (- 1 - of_nat d :: u64) = 18446744073709551615 - d"
    by (simp only: unat_digit [OF assms])
  then show ?thesis
    using room_for_digit [OF assms, of "unat v"] by (simp only: word_less_nat_alt unat_div) simp
qed

lemma digit_value_less: "c_isdigit c \<Longrightarrow> digit_value c < 10"
  by (auto simp: c_isdigit_def digit_value_def Let_def)

lemma read_digits_value:
  assumes "all_digits ds" and "tail = [] \<or> \<not> c_isdigit (hd tail)"
  shows "read_digits (ds @ tail) v =
    (let n = unat v * 10 ^ length ds + digits_value 10 ds in
     if n < 2 ^ 64 then Inr (of_nat n) else Inl uint64_range)"
  using assms(1)
proof (induction ds arbitrary: v)
  case Nil
  have "unat v < 2 ^ 64" using unsigned_less [of v, where ?'a = nat] by simp
  then show ?case using assms(2) by (cases tail) simp_all
next
  case (Cons c ds)
  let ?d = "digit_value c"
  let ?n = "unat v * 10 ^ length (c # ds) + digits_value 10 (c # ds)"
  have d: "?d < 10" using Cons.prems by (simp add: digit_value_less)
  have n: "?n = (unat v * 10 + ?d) * 10 ^ length ds + digits_value 10 ds"
    by (simp add: digits_value_Cons algebra_simps)
  show ?case
  proof (cases "2 ^ 64 \<le> unat v * 10 + ?d")
    case True
    have "unat v * 10 + ?d \<le> (unat v * 10 + ?d) * 10 ^ length ds" by simp
    with True n have "\<not> ?n < 2 ^ 64" by linarith
    then show ?thesis using True Cons.prems overflow_test [OF d, of v] by (simp add: Let_def)
  next
    case False
    then have u: "unat (v * 10 + of_nat ?d :: u64) = unat v * 10 + ?d"
      using d by (simp add: unat_word_ariths unat_of_nat)
    have "read_digits ((c # ds) @ tail) v = read_digits (ds @ tail) (v * 10 + of_nat ?d)"
      using False Cons.prems overflow_test [OF d, of v] by simp
    then show ?thesis using Cons.IH [of "v * 10 + of_nat ?d"] Cons.prems n u by simp
  qed
qed

text \<open>
  C23. The unsigned reader returns the decimal value of the digits exactly when it fits in 64
  bits; a larger value throws, so no read value has wrapped around.
\<close>

theorem JsonUint64_exact:
  assumes "ValueStart json key 0 = Inr pos"
    and "drop pos json = ds @ tail" and "ds \<noteq> []" and "all_digits ds"
    and "tail = [] \<or> \<not> c_isdigit (hd tail)"
  shows "JsonUint64 json key =
    (if digits_value 10 ds < 2 ^ 64 then Inr (of_nat (digits_value 10 ds)) else Inl uint64_range)"
proof -
  obtain d es where ds: "ds = d # es" using assms(3) by (cases ds) auto
  have len: "pos < length json" using assms(2) ds by (metis append_Cons drop_all leI list.distinct(1))
  then have "c_isdigit (json ! pos)"
    using assms(2,4) ds by (simp add: drop_Cons_nth)
  with len show ?thesis
    using read_digits_value [OF assms(4,5), of 0] assms(1,2)
    by (simp add: JsonUint64_def digit_loop_drop)
qed

theorem JsonUint64_exact_witness:
  "JsonUint64 (''{'' @ [dquote] @ ''revision'' @ [dquote] @ '':18446744073709551615}'') ''revision''
      = Inr 18446744073709551615"
proof -
  let ?json = "''{'' @ [dquote] @ ''revision'' @ [dquote] @ '':18446744073709551615}''"
  have p: "ValueStart ?json ''revision'' 0 = Inr 12"
    by (simp add: ValueStart_def str_find_def skip_spaces_drop c_isspace_def byte_of_def)
  have d: "drop 12 ?json = ''18446744073709551615'' @ ''}''" by simp
  show ?thesis
    using JsonUint64_exact [OF p d]
    by (simp add: c_isdigit_def byte_of_def digits_value_def digit_value_def)
qed

section \<open>Evaluation on concrete texts\<close>

lemmas scan_eval = ValueStart_def str_find_def skip_spaces_drop JsonString_def string_loop_drop
  JsonUint64_def digit_loop_drop JsonBool_def JsonDouble_def MatchingEnd_def matching_loop_scan
  offset_result_def ObjectArray_def object_loop.simps skip_separators.simps
  c_isspace_def c_isdigit_def byte_of_def digit_value_def substr_def

end
