(* ===== verification/ScanArrays.thy ===== *)
theory ScanArrays
  imports ScanFacts
begin

text \<open>
  How the scanner of \<open>MessageTransportGate.cpp\<close> and \<open>NetworkEffectGate.cpp\<close> splits an array
  of objects. A text is neutral for a pair of brackets when the bracket counter of
  \<^const>\<open>MatchingEnd\<close> passes over it unchanged; every JSON text is neutral, whatever its strings
  contain, so \<^const>\<open>ObjectArray\<close> returns exactly the texts of the array's objects.
\<close>

section \<open>Texts the bracket counter passes over\<close>

definition neutral :: "char \<Rightarrow> char \<Rightarrow> string \<Rightarrow> bool" where
  "neutral opener closer s \<longleftrightarrow>
     (\<forall>d rest. 1 \<le> d \<longrightarrow> scan_close opener closer d False False (s @ rest) =
        map_option (\<lambda>k. length s + k) (scan_close opener closer d False False rest))"

definition bracket_pair :: "char \<Rightarrow> char \<Rightarrow> bool" where
  "bracket_pair opener closer \<longleftrightarrow>
     opener = CHR ''['' \<and> closer = CHR '']'' \<or> opener = CHR ''{'' \<and> closer = CHR ''}''"

definition inert :: "string \<Rightarrow> bool" where
  "inert s \<longleftrightarrow> list_all (\<lambda>c. c \<notin> {dquote, CHR ''['', CHR '']'', CHR ''{'', CHR ''}''}) s"

lemma neutralD:
  "neutral opener closer s \<Longrightarrow> 1 \<le> d \<Longrightarrow> scan_close opener closer d False False (s @ rest) =
    map_option (\<lambda>k. length s + k) (scan_close opener closer d False False rest)"
  by (simp add: neutral_def)

lemma neutral_Nil [simp]: "neutral opener closer []"
  by (simp add: neutral_def option.map_ident)

lemma neutral_append: "neutral opener closer s \<Longrightarrow> neutral opener closer t \<Longrightarrow> neutral opener closer (s @ t)"
  by (simp add: neutral_def option.map_comp o_def add.assoc)

lemma inert_simps [simp]:
  "inert []"
  "inert (c # s) \<longleftrightarrow> c \<notin> {dquote, CHR ''['', CHR '']'', CHR ''{'', CHR ''}''} \<and> inert s"
  "inert (s @ t) \<longleftrightarrow> inert s \<and> inert t"
  by (simp_all add: inert_def)

lemma neutral_inert:
  assumes "bracket_pair opener closer" and "inert s"
  shows "neutral opener closer s"
  using assms(2)
proof (induction s)
  case Nil
  then show ?case by simp
next
  case (Cons c s)
  then show ?case using assms(1)
    by (auto simp: neutral_def bracket_pair_def option.map_comp o_def)
qed

lemma inert_digits: "all_digits ds \<Longrightarrow> inert ds"
  by (auto simp: inert_def all_digits_def c_isdigit_def byte_of_def list_all_iff)

lemma inert_int: "json_int ip \<Longrightarrow> inert ip"
  by (simp add: json_int_def inert_digits)

lemma inert_unsigned: "json_unsigned s v \<Longrightarrow> inert s"
  by (induction rule: json_unsigned.induct) (simp_all add: inert_int inert_digits)

lemma inert_number: "json_number s v \<Longrightarrow> inert s"
  by (induction rule: json_number.induct) (auto dest: inert_unsigned inert_digits)

lemma scan_string_body:
  assumes "string_body s t"
  shows "scan_close opener closer d True False (s @ dquote # rest) =
    map_option (\<lambda>k. length s + 1 + k) (scan_close opener closer d False False rest)"
  using assms
proof (induction rule: string_body.induct)
  case body_nil
  then show ?case by (simp add: Suc_eq_plus1_left [symmetric] comp_def fun_eq_iff)
next
  case (body_plain c s t)
  then show ?case by (simp add: option.map_comp o_def)
next
  case (body_escape e c s t)
  then show ?case by (simp add: option.map_comp o_def)
next
  case (body_unicode h s t)
  have step: "scan_close opener closer d True False (h @ r) =
      map_option (\<lambda>k. length h + k) (scan_close opener closer d True False r)" for r
    using \<open>list_all c_isxdigit h\<close>
  proof (induction h)
    case Nil
    have "(+) 0 = (\<lambda>k :: nat. k)" by auto
    then show ?case by (simp add: option.map_ident)
  next
    case (Cons a h)
    then have "a \<noteq> bslash" "a \<noteq> dquote"
      by (auto simp: c_isxdigit_def c_isdigit_def byte_of_def)
    with Cons show ?case by (simp add: option.map_comp o_def)
  qed
  from body_unicode.IH show ?case by (simp add: step option.map_comp o_def add.assoc)
qed

lemma neutral_string:
  assumes "string_body s t" and "bracket_pair opener closer"
  shows "neutral opener closer ([dquote] @ s @ [dquote])"
  using scan_string_body [OF assms(1), of opener closer] assms(2)
  by (auto simp: neutral_def bracket_pair_def option.map_comp o_def)

text \<open>A bracketed text is neutral when what it encloses is.\<close>

lemma neutral_bracketed:
  assumes "neutral opener closer s" and "bracket_pair opener closer"
    and "o1 = CHR ''['' \<and> c1 = CHR '']'' \<or> o1 = CHR ''{'' \<and> c1 = CHR ''}''"
  shows "neutral opener closer ([o1] @ s @ [c1])"
  unfolding neutral_def
proof (intro allI impI)
  fix d :: int and rest :: string
  assume d: "1 \<le> d"
  then have inner: "scan_close opener closer e False False (s @ c1 # rest) =
      map_option (\<lambda>k. length s + k) (scan_close opener closer e False False (c1 # rest))" if "1 \<le> e" for e
    using neutralD [OF assms(1) that] by simp
  show "scan_close opener closer d False False (([o1] @ s @ [c1]) @ rest) =
      map_option (\<lambda>k. length ([o1] @ s @ [c1]) + k) (scan_close opener closer d False False rest)"
    using assms(2,3) d by (auto simp: bracket_pair_def inner option.map_comp o_def)
qed

lemma neutral_commas:
  assumes "bracket_pair opener closer" and "list_all (neutral opener closer) ts"
  shows "neutral opener closer (commas ts)"
proof -
  have comma: "neutral opener closer '',''" by (rule neutral_inert [OF assms(1)]) simp
  show ?thesis using assms(2)
    by (induction ts) (auto simp: commas_Cons intro!: neutral_append comma [simplified]
        simp del: append_Cons simp flip: append_Cons [of "CHR '',''" "[]", simplified])
qed

lemma json_text_neutral:
  assumes "json_text s v" and "bracket_pair opener closer"
  shows "neutral opener closer s"
  using assms(1)
proof (induction rule: json_text.induct)
  case (text_number s v)
  then show ?case by (intro neutral_inert assms(2) inert_number)
next
  case (text_string s t)
  then show ?case using assms(2) by (rule neutral_string)
next
  case (text_array ts vs)
  then have "list_all (neutral opener closer) ts"
    by (auto simp: list_all_length list_all2_conv_all_nth)
  from neutral_bracketed [OF neutral_commas [OF assms(2) this] assms(2)] show ?case by simp
next
  case (text_object ts kvs)
  have "neutral opener closer t" if "t \<in> set ts" for t
  proof -
    from that text_object.IH obtain ks s and kv :: "string \<times> json" where t: "t = ([dquote] @ ks @ [dquote]) @ '':'' @ s"
      and "string_body ks (fst kv)" and s: "neutral opener closer s"
      by (auto simp: list_all2_conv_all_nth in_set_conv_nth)
    then have "neutral opener closer ([dquote] @ ks @ [dquote])" by (intro neutral_string assms(2))
    moreover have "neutral opener closer '':''" by (rule neutral_inert [OF assms(2)]) simp
    ultimately show ?thesis unfolding t using s neutral_append by blast
  qed
  then have "list_all (neutral opener closer) ts" by (simp add: list_all_iff)
  from neutral_bracketed [OF neutral_commas [OF assms(2) this] assms(2)] show ?case by simp
qed (auto intro!: neutral_inert [OF assms(2)])

section \<open>Splitting an array of objects\<close>

text \<open>The text of a JSON object, and the end the scanner finds for it.\<close>

definition object_text :: "string \<Rightarrow> bool" where
  "object_text t \<longleftrightarrow> (\<exists>s. t = ''{'' @ s @ ''}'' \<and> neutral (CHR ''{'') (CHR ''}'') s \<and>
     neutral (CHR ''['') (CHR '']'') t)"

lemma json_object_text:
  assumes "json_text t (JObj kvs)"
  shows "object_text t"
proof -
  have pairs: "bracket_pair (CHR ''{'') (CHR ''}'')" "bracket_pair (CHR ''['') (CHR '']'')"
    by (simp_all add: bracket_pair_def)
  from assms show ?thesis
  proof (cases rule: json_text.cases)
    case (text_object ts)
    have "neutral (CHR ''{'') (CHR ''}'') u" if "u \<in> set ts" for u
    proof -
      from that text_object(2) obtain ks s and kv :: "string \<times> json"
        where u: "u = ([dquote] @ ks @ [dquote]) @ '':'' @ s"
          and ks: "string_body ks (fst kv)" and s: "json_text s (snd kv)"
        by (auto simp: list_all2_conv_all_nth in_set_conv_nth)
      have "neutral (CHR ''{'') (CHR ''}'') '':''" by (rule neutral_inert [OF pairs(1)]) simp
      then show ?thesis
        unfolding u using neutral_string [OF ks pairs(1)] json_text_neutral [OF s pairs(1)] neutral_append
        by blast
    qed
    then have "neutral (CHR ''{'') (CHR ''}'') (commas ts)"
      by (intro neutral_commas pairs) (simp add: list_all_iff)
    then show ?thesis
      unfolding object_text_def using json_text_neutral [OF assms pairs(2)] text_object(1) by blast
  qed
qed

lemma MatchingEnd_bracketed:
  assumes "json = pre @ [opener] @ s @ [closer] @ post"
    and "neutral opener closer s" and "bracket_pair opener closer"
  shows "MatchingEnd json (length pre) opener closer = Inr (length pre + length s + 1)"
proof -
  have "scan_close opener closer 1 False False (s @ closer # post) = Some (length s)"
    using neutralD [OF assms(2), of 1 "closer # post"] assms(3) by (auto simp: bracket_pair_def)
  then have "scan_close opener closer 0 False False (drop (length pre) json) = Some (length s + 1)"
    using assms(1,3) by (auto simp: bracket_pair_def)
  then show ?thesis by (simp add: MatchingEnd_def matching_loop_scan offset_result_def)
qed

lemma skip_separators_at:
  assumes "json = pre @ sep @ post" and "list_all (\<lambda>c. c_isspace c \<or> c = CHR '','') sep"
    and "length pre + length sep \<le> arrayEnd"
    and "length pre + length sep = arrayEnd \<or>
      (\<exists>c cs. post = c # cs \<and> \<not> c_isspace c \<and> c \<noteq> CHR '','')"
  shows "skip_separators json arrayEnd (length pre) = length pre + length sep"
  using assms
proof (induction sep arbitrary: pre)
  case Nil
  then show ?case by (auto simp: skip_separators.simps [of _ _ "length pre"])
next
  case (Cons c sep)
  from Cons.IH [of "pre @ [c]"] Cons.prems show ?case
    by (auto simp: skip_separators.simps [of _ _ "length pre"])
qed

lemma object_loop_at:
  assumes "list_all object_text ts"
    and "json = pre @ (if ts = [] then [] else sep @ commas ts) @ post"
    and "sep = [] \<or> sep = '',''"
    and "arrayEnd = length pre + length (if ts = [] then [] else sep @ commas ts)"
  shows "object_loop json key arrayEnd (length pre) acc = Inr (acc @ ts)"
  using assms
proof (induction ts arbitrary: pre sep acc)
  case Nil
  then show ?case by (simp add: object_loop.simps)
next
  case (Cons t ts)
  let ?more = "if ts = [] then [] else '','' @ commas ts"
  obtain s where t: "t = ''{'' @ s @ ''}''" and s: "neutral (CHR ''{'') (CHR ''}'') s"
    using Cons.prems(1) by (auto simp: object_text_def)
  have json: "json = (pre @ sep) @ t @ ?more @ post"
    using Cons.prems(2) by (simp add: commas_Cons)
  have len: "arrayEnd = length (pre @ sep @ t) + length ?more"
    using Cons.prems(4) by (simp add: commas_Cons)
  have skip: "skip_separators json arrayEnd (length pre) = length (pre @ sep)"
    using skip_separators_at [of json pre sep "t @ ?more @ post" arrayEnd] json len Cons.prems(3)
    by (auto simp: t c_isspace_def byte_of_def)
  have close: "MatchingEnd json (length (pre @ sep)) (CHR ''{'') (CHR ''}'') =
      Inr (length (pre @ sep) + length s + 1)"
    using json t by (intro MatchingEnd_bracketed [of _ _ _ _ _ "?more @ post"] s) (auto simp: bracket_pair_def)
  have "substr json (length (pre @ sep)) (length s + 2) = t"
    unfolding json by (simp add: substr_def t)
  moreover have "json ! length (pre @ sep) = CHR ''{''" unfolding json t nth_append_length_plus
    by (simp add: nth_append)
  ultimately have "object_loop json key arrayEnd (length pre) acc =
      object_loop json key arrayEnd (length (pre @ sep @ t)) (acc @ [t])"
    using skip close len t by (simp add: object_loop.simps [of json _ _ "length pre"] add.assoc)
  also have "\<dots> = Inr ((acc @ [t]) @ ts)"
    using Cons.prems(1) json len by (intro Cons.IH [of _ "'',''"]) auto
  finally show ?case by simp
qed

text \<open>
  C18. When the text behind a key is an array of JSON objects, the scanner returns exactly the
  texts of its objects, in order, whatever brackets, braces, quotes and commas the objects
  contain in their strings and nested values.
\<close>

theorem ObjectArray_splits:
  assumes "ValueStart json key 0 = Inr pos"
    and "drop pos json = ''['' @ commas ts @ '']'' @ post"
    and "list_all2 (\<lambda>t kvs. json_text t (JObj kvs)) ts objects"
  shows "ObjectArray json key = Inr ts"
proof -
  have objs: "list_all object_text ts"
    using assms(3) json_object_text by (auto simp: list_all2_conv_all_nth list_all_length)
  obtain pre where json: "json = pre @ ''['' @ commas ts @ '']'' @ post" and pre: "length pre = pos"
    using assms(2) by (metis append_take_drop_id length_take min.absorb2 drop_all linorder_le_cases
        append_is_Nil_conv list.distinct(1))
  have "list_all (neutral (CHR ''['') (CHR '']'')) ts"
    using objs by (auto simp: list_all_iff object_text_def)
  then have "neutral (CHR ''['') (CHR '']'') (commas ts)"
    by (intro neutral_commas) (simp_all add: bracket_pair_def)
  then have close: "MatchingEnd json pos (CHR ''['') (CHR '']'') = Inr (pos + length (commas ts) + 1)"
    using MatchingEnd_bracketed [of json pre "CHR ''[''" "commas ts" "CHR '']''" post] json pre
    by (simp add: bracket_pair_def)
  have "object_loop json key (pos + length (commas ts) + 1) (length (pre @ ''['')) [] = Inr ([] @ ts)"
    using json pre by (intro object_loop_at [OF objs, of _ _ "[]" "'']'' @ post"]) auto
  then show ?thesis
    using assms(1) json pre close by (auto simp: ObjectArray_def)
qed

theorem ObjectArray_splits_witness:
  "ObjectArray (''{\"links\":['' @ commas [WriteDevice empty_device, WriteDevice empty_device] @ '']}'') ''links''
    = Inr [WriteDevice empty_device, WriteDevice empty_device]"
proof (rule ObjectArray_splits)
  let ?ds = "[WriteDevice empty_device, WriteDevice empty_device]"
  let ?json = "''{\"links\":['' @ commas ?ds @ '']}''"
  show "ValueStart ?json ''links'' 0 = Inr 9"
    by (simp add: ValueStart_def str_find_def skip_spaces_drop c_isspace_def byte_of_def)
  show "drop 9 ?json = ''['' @ commas ?ds @ '']'' @ ''}''" by simp
  let ?kvs = "case device_json empty_device of JObj kvs \<Rightarrow> kvs"
  have "device_json empty_device = JObj ?kvs" by (simp add: device_json_def)
  moreover have "json_text (WriteDevice empty_device) (device_json empty_device)"
    by (rule json_text_WriteDevice) (simp add: finite_defs)
  ultimately show "list_all2 (\<lambda>t kvs. json_text t (JObj kvs)) ?ds [?kvs, ?kvs]"
    by (metis list.rel_intros)
qed

end
