(* ===== verification/CxxMap.thy ===== *)
theory CxxMap
  imports Prelude
begin

text \<open>
  \<open>std::map\<close> and \<open>std::set\<close>: the sequence of entries in strictly increasing key order, which
  is also the iteration order. Keys are compared as the library does: strings
  lexicographically by unsigned bytes, pairs and tuples component by component.
  The interface the components rely on is the locale \<open>ordered_dict\<close>, interpreted on these
  definitions as \<open>cmap\<close>.
\<close>

type_synonym ('k, 'v) cmap = "('k \<times> 'v) list"

definition map_find :: "('k, 'v) cmap \<Rightarrow> 'k \<Rightarrow> 'v option" where
  "map_find m k = map_of m k"

text \<open>\<open>m[k] = v\<close>.\<close>

fun map_put :: "'k :: linorder \<Rightarrow> 'v \<Rightarrow> ('k, 'v) cmap \<Rightarrow> ('k, 'v) cmap" where
  "map_put k v [] = [(k, v)]"
| "map_put k v ((l, w) # m) =
     (if k < l then (k, v) # (l, w) # m
      else if k = l then (k, v) # m
      else (l, w) # map_put k v m)"

definition map_erase :: "'k \<Rightarrow> ('k, 'v) cmap \<Rightarrow> ('k, 'v) cmap" where
  "map_erase k m = filter (\<lambda>e. fst e \<noteq> k) m"

definition map_has :: "('k, 'v) cmap \<Rightarrow> 'k \<Rightarrow> bool" where
  "map_has m k \<longleftrightarrow> map_find m k \<noteq> None"

text \<open>\<open>m.emplace(k, v)\<close>: whether it inserted, and the map.\<close>

definition map_emplace :: "'k :: linorder \<Rightarrow> 'v \<Rightarrow> ('k, 'v) cmap \<Rightarrow> bool \<times> ('k, 'v) cmap" where
  "map_emplace k v m = (if map_has m k then (False, m) else (True, map_put k v m))"

definition map_ok :: "('k :: linorder, 'v) cmap \<Rightarrow> bool" where
  "map_ok m \<longleftrightarrow> sorted_wrt (<) (map fst m)"

section \<open>The interface\<close>

locale ordered_dict =
  fixes empty :: "'m"
    and find :: "'m \<Rightarrow> 'k :: linorder \<Rightarrow> 'v option"
    and put :: "'k \<Rightarrow> 'v \<Rightarrow> 'm \<Rightarrow> 'm"
    and erase :: "'k \<Rightarrow> 'm \<Rightarrow> 'm"
    and entries :: "'m \<Rightarrow> ('k \<times> 'v) list"
    and ok :: "'m \<Rightarrow> bool"
  assumes ok_empty: "ok empty"
    and find_empty: "find empty k = None"
    and ok_put: "ok m \<Longrightarrow> ok (put k v m)"
    and find_put: "ok m \<Longrightarrow> find (put k v m) l = (if l = k then Some v else find m l)"
    and ok_erase: "ok m \<Longrightarrow> ok (erase k m)"
    and find_erase: "ok m \<Longrightarrow> find (erase k m) l = (if l = k then None else find m l)"
    and entries_sorted: "ok m \<Longrightarrow> sorted_wrt (<) (map fst (entries m))"
    and entries_find: "ok m \<Longrightarrow> (k, v) \<in> set (entries m) \<longleftrightarrow> find m k = Some v"
    and entries_inj: "entries m = entries n \<Longrightarrow> m = n"
begin

text \<open>Building a dictionary by a run of assignments: the last one to a key wins.\<close>

definition put_all :: "('k \<times> 'v) list \<Rightarrow> 'm \<Rightarrow> 'm" where
  "put_all kvs m = fold (\<lambda>(k, v). put k v) kvs m"

lemma ok_put_all: "ok m \<Longrightarrow> ok (put_all kvs m)"
  unfolding put_all_def by (induction kvs arbitrary: m) (auto simp: ok_put)

lemma find_put_all:
  "ok m \<Longrightarrow> find (put_all kvs m) k =
    (case map_of (rev kvs) k of Some v \<Rightarrow> Some v | None \<Rightarrow> find m k)"
proof (induction kvs rule: rev_induct)
  case Nil
  then show ?case by (simp add: put_all_def)
next
  case (snoc kv kvs)
  obtain l w where kv: "kv = (l, w)" by (cases kv)
  have "put_all (kvs @ [kv]) m = put l w (put_all kvs m)"
    by (simp add: put_all_def kv)
  then show ?case
    using snoc.IH [OF snoc.prems] ok_put_all [OF snoc.prems, of kvs] kv
    by (simp add: find_put)
qed

lemma distinct_keys: "ok m \<Longrightarrow> distinct (map fst (entries m))"
  using entries_sorted strict_sorted_iff by blast

lemma map_of_entries: "ok m \<Longrightarrow> map_of (entries m) k = find m k"
  using distinct_keys entries_find
  by (metis map_of_SomeD map_of_eq_Some_iff not_None_eq)

text \<open>A dictionary is determined by its lookups.\<close>

lemma find_ext:
  assumes "ok m" and "ok n" and "\<And>k. find m k = find n k"
  shows "m = n"
proof -
  have "set (entries m) = set (entries n)"
    using assms entries_find by (auto simp: set_eq_iff split_paired_all)
  moreover have "sorted (map fst (entries m))" "sorted (map fst (entries n))"
    using assms(1,2) entries_sorted strict_sorted_iff by blast+
  ultimately have "entries m = entries n"
    using map_sorted_distinct_set_unique [of fst "entries m" "entries n"]
      distinct_keys [OF assms(1)] distinct_keys [OF assms(2)]
    by (metis distinct_map sup.idem)
  then show ?thesis by (rule entries_inj)
qed

end

section \<open>The model of the library satisfies it\<close>

lemma map_put_set: "map_ok m \<Longrightarrow> set (map_put k v m) = insert (k, v) {e \<in> set m. fst e \<noteq> k}"
proof (induction k v m rule: map_put.induct)
  case (1 k v)
  then show ?case by simp
next
  case (2 k v l w m)
  then show ?case by (auto simp: map_ok_def)
qed

lemma map_ok_Cons: "map_ok (e # m) \<longleftrightarrow> (\<forall>f \<in> set m. fst e < fst f) \<and> map_ok m"
  by (auto simp: map_ok_def)

lemma map_ok_put: "map_ok m \<Longrightarrow> map_ok (map_put k v m)"
proof (induction k v m rule: map_put.induct)
  case (1 k v)
  show ?case by (simp add: map_ok_def)
next
  case (2 k v l w m)
  then show ?case by (auto simp: map_ok_Cons map_put_set intro: less_trans)
qed

lemma map_find_put: "map_ok m \<Longrightarrow> map_find (map_put k v m) l = (if l = k then Some v else map_find m l)"
  unfolding map_find_def
  by (induction k v m rule: map_put.induct) (auto simp: map_ok_Cons)

lemma map_find_erase: "map_find (map_erase k m) l = (if l = k then None else map_find m l)"
  unfolding map_find_def map_erase_def by (induction m) auto

lemma map_ok_erase: "map_ok m \<Longrightarrow> map_ok (map_erase k m)"
  unfolding map_ok_def map_erase_def by (induction m) auto

lemma map_entry_find: "map_ok m \<Longrightarrow> (k, v) \<in> set m \<longleftrightarrow> map_find m k = Some v"
  unfolding map_find_def map_ok_def
  by (metis map_of_eq_Some_iff strict_sorted_iff)

interpretation cmap: ordered_dict "[] :: ('k :: linorder, 'v) cmap" map_find map_put map_erase
  "\<lambda>m. m" map_ok
  by unfold_locales
    (simp_all add: map_ok_put map_find_put map_ok_erase map_find_erase map_entry_find,
     simp_all add: map_ok_def map_find_def)

lemma map_find_empty [simp]: "map_find [] k = None"
  by (simp add: map_find_def)

lemma map_ok_empty [simp]: "map_ok []"
  by (rule cmap.ok_empty)

text \<open>What holds of every entry, and membership.\<close>

lemma list_all_put: "list_all P m \<Longrightarrow> P (k, v) \<Longrightarrow> list_all P (map_put k v m)"
  by (induction k v m rule: map_put.induct) auto

lemma list_all_find: "list_all P m \<Longrightarrow> map_find m k = Some v \<Longrightarrow> P (k, v)"
  by (auto simp: map_find_def list_all_iff dest: map_of_SomeD)

lemma map_has_put: "map_ok m \<Longrightarrow> map_has (map_put k v m) l \<longleftrightarrow> l = k \<or> map_has m l"
  by (simp add: map_has_def map_find_put)

lemma map_has_erase: "map_has (map_erase k m) l \<longleftrightarrow> l \<noteq> k \<and> map_has m l"
  by (simp add: map_has_def map_find_erase)

declare map_ok_put [invariant_intros] map_ok_erase [invariant_intros]

end
