(* ===== verification/RevisionGate.thy ===== *)
theory RevisionGate
  imports Prelude
begin

text \<open>
  The contract that the two gates of the simulation share (\<open>MessageTransportGate\<close> and
  \<open>NetworkEffectGate\<close>): a gate reads metrics lines, each with a revision, and installs a
  line's payload only when its revision is newer than every one installed before. The locale
  \<open>revision_gate\<close> states it; \<open>replacing_gate\<close> adds that a payload replaces the one before.
  Both gates interpret it in their own theories.
\<close>

locale revision_gate =
  fixes latest :: "'s \<Rightarrow> u64"
    and read_line :: "string \<Rightarrow> (u64 \<times> 'p) option result"
    and install :: "u64 \<Rightarrow> 'p \<Rightarrow> 's \<Rightarrow> 's"
    and step :: "string \<Rightarrow> 's \<Rightarrow> 's"
  assumes step_error: "read_line l = Inl e \<Longrightarrow> step l s = s"
    and step_other: "read_line l = Inr None \<Longrightarrow> step l s = s"
    and step_stale: "read_line l = Inr (Some (r, p)) \<Longrightarrow> r \<le> latest s \<Longrightarrow> step l s = s"
    and step_newer: "read_line l = Inr (Some (r, p)) \<Longrightarrow> latest s < r \<Longrightarrow> step l s = install r p s"
    and latest_install: "latest (install r p s) = r"
begin

text \<open>What a line carries, and a run of lines.\<close>

definition payload :: "string \<Rightarrow> (u64 \<times> 'p) option" where
  "payload l = (case read_line l of Inl _ \<Rightarrow> None | Inr x \<Rightarrow> x)"

definition run :: "string list \<Rightarrow> 's \<Rightarrow> 's" where
  "run ls s = fold step ls s"

lemma run_simps [simp]:
  "run [] s = s"
  "run (l # ls) s = run ls (step l s)"
  "run (ls @ ms) s = run ms (run ls s)"
  by (simp_all add: run_def)

lemma step_cases:
  "step l s = (case payload l of None \<Rightarrow> s
    | Some (r, p) \<Rightarrow> if latest s < r then install r p s else s)"
  using step_error step_other step_stale step_newer
  by (auto simp: payload_def not_less split: sum.splits option.splits)

lemma latest_step:
  "latest (step l s) = (case payload l of None \<Rightarrow> latest s | Some (r, p) \<Rightarrow> max (latest s) r)"
  by (auto simp: step_cases latest_install split: option.splits)

lemma latest_step_mono: "latest s \<le> latest (step l s)"
  by (auto simp: latest_step split: option.splits)

lemma latest_run_mono: "latest s \<le> latest (run ls s)"
  by (induction ls arbitrary: s) (auto intro: order_trans latest_step_mono)

lemma latest_run_ge: "l \<in> set ls \<Longrightarrow> payload l = Some (r, p) \<Longrightarrow> r \<le> latest (run ls s)"
proof (induction ls arbitrary: s)
  case Nil
  then show ?case by simp
next
  case (Cons k ls)
  show ?case
  proof (cases "l = k")
    case True
    then have "r \<le> latest (step k s)" using Cons.prems by (simp add: latest_step)
    also have "\<dots> \<le> latest (run ls (step k s))" by (rule latest_run_mono)
    finally show ?thesis by simp
  qed (use Cons in auto)
qed

text \<open>A line that has been read, or that is older than one that has, changes nothing any more.\<close>

lemma stale_ignored:
  assumes "l \<in> set ls" and "payload l = Some (r, p)" and "payload m = Some (r', p')" and "r' \<le> r"
  shows "step m (run ls s) = run ls s"
proof -
  have "r' \<le> latest (run ls s)" using latest_run_ge [OF assms(1,2)] assms(4) by (rule order_trans [rotated])
  then show ?thesis using assms(3) by (auto simp: step_cases not_less [symmetric])
qed

lemma replay_ignored:
  assumes "l \<in> set ls"
  shows "step l (run ls s) = run ls s"
proof (cases "payload l")
  case None
  then show ?thesis by (simp add: step_cases)
next
  case (Some x)
  then show ?thesis using stale_ignored [OF assms, of "fst x" "snd x" l "fst x" "snd x"] by simp
qed

lemma replay_all_ignored: "set ms \<subseteq> set ls \<Longrightarrow> run ms (run ls s) = run ls s"
  by (induction ms) (auto simp: replay_ignored)

text \<open>The revision after a run is the start or that of some line read.\<close>

lemma latest_run_in:
  "latest (run ls s) = latest s \<or> (\<exists>l \<in> set ls. \<exists>p. payload l = Some (latest (run ls s), p))"
proof (induction ls arbitrary: s)
  case Nil
  then show ?case by simp
next
  case (Cons l ls)
  from Cons.IH [of "step l s"] show ?case
    by (auto simp: latest_step max_def split: option.splits if_splits)
qed

end

section \<open>Gates whose payload replaces the one before\<close>

locale replacing_gate = revision_gate latest read_line install step
  for latest :: "'s \<Rightarrow> u64"
    and read_line :: "string \<Rightarrow> (u64 \<times> 'p) option result"
    and install :: "u64 \<Rightarrow> 'p \<Rightarrow> 's \<Rightarrow> 's"
    and step :: "string \<Rightarrow> 's \<Rightarrow> 's" +
  assumes install_install: "install r p (install r' p' s) = install r p s"
begin

lemma run_installed:
  "run ls s = s \<or> (\<exists>l \<in> set ls. \<exists>p. payload l = Some (latest (run ls s), p) \<and>
    run ls s = install (latest (run ls s)) p s)"
proof (induction ls rule: rev_induct)
  case Nil
  then show ?case by simp
next
  case (snoc l ls)
  show ?case
  proof (cases "step l (run ls s) = run ls s")
    case True
    then show ?thesis using snoc by auto
  next
    case False
    then obtain r p where l: "payload l = Some (r, p)" "step l (run ls s) = install r p (run ls s)"
      by (auto simp: step_cases split: option.splits prod.splits if_splits)
    moreover have "install r p (run ls s) = install r p s"
      using snoc install_install by metis
    ultimately show ?thesis by (auto simp: latest_install)
  qed
qed

text \<open>
  When equal revisions carry equal payloads, the state after a run depends only on the set of
  lines received: neither their order nor duplicates matter.
\<close>

lemma run_order_independent:
  assumes "set ls = set ms"
    and "\<And>l m r p q. l \<in> set ls \<Longrightarrow> m \<in> set ls \<Longrightarrow> payload l = Some (r, p) \<Longrightarrow>
      payload m = Some (r, q) \<Longrightarrow> p = q"
  shows "run ls s = run ms s"
proof -
  have le: "latest (run xs s) \<le> latest (run ys s)" if "set xs = set ys" for xs ys
    using latest_run_in [of xs s] latest_run_mono [of s ys] latest_run_ge that by metis
  have eq: "latest (run ls s) = latest (run ms s)"
    using le [OF assms(1)] le [OF assms(1) [symmetric]] by (rule order_antisym)
  have unchanged: "run xs s = s" if "latest (run xs s) = latest s" for xs
    using that
  proof (induction xs arbitrary: s)
    case (Cons x xs)
    have "latest (step x s) = latest s"
      using latest_step_mono [of s x] latest_run_mono [of "step x s" xs] Cons.prems by simp
    then have "step x s = s"
      by (auto simp: step_cases latest_install split: option.splits prod.splits if_splits)
    with Cons show ?case by simp
  qed simp
  show ?thesis
  proof (cases "latest (run ls s) = latest s")
    case True
    then show ?thesis using unchanged eq by metis
  next
    case False
    then have "run ls s \<noteq> s" "run ms s \<noteq> s" using eq by auto
    then show ?thesis
      using run_installed [of ls s] run_installed [of ms s] assms eq by metis
  qed
qed

end

end
