(* ===== verification/MessageGate.thy ===== *)
theory MessageGate
  imports ScanArrays CxxMap RevisionGate
begin

text \<open>
  \<open>src/windows_adapter/MessageTransportGate.hpp\<close> and \<open>.cpp\<close>: the decision taken for each
  simulated message from the latest network metrics. The mutex makes each operation atomic,
  so an operation is a function of the gate's state; an update parses into local variables
  before it locks, so a line that throws leaves the state as it was.
\<close>

section \<open>Data\<close>

datatype MessageDisposition = NoLink | Drop | Deliver

record MessageTransportDecision =
  dec_sourceEntityId :: string
  dec_targetEntityId :: string
  dec_disposition :: MessageDisposition
  dec_delayMs :: double
  dec_lossRate :: double
  dec_revision :: u64
  dec_reason :: string

record Profile =
  connected :: bool
  delayMs :: double
  lossRate :: double

type_synonym profiles = "(string \<times> string, Profile) cmap"

record MessageTransportGate =
  mProfiles :: profiles
  mLatestRevision :: u64

definition new_profile :: Profile where
  "new_profile = \<lparr>connected = False, delayMs = Fin 0, lossRate = Fin 1\<rparr>"

definition new_message_gate :: MessageTransportGate where
  "new_message_gate = \<lparr>mProfiles = [], mLatestRevision = 0\<rparr>"

definition disposition_text :: "MessageDisposition \<Rightarrow> string" where
  "disposition_text d = (case d of NoLink \<Rightarrow> ''NO_LINK'' | Drop \<Rightarrow> ''DROP'' | Deliver \<Rightarrow> ''DELIVER'')"

section \<open>The deterministic draw\<close>

abbreviation fnv_prime :: u64 where "fnv_prime \<equiv> 1099511628211"

definition hash_byte :: "u64 \<Rightarrow> u64 \<Rightarrow> u64" where
  "hash_byte hash b = (hash XOR b) * fnv_prime"

definition HashText :: "u64 \<Rightarrow> string \<Rightarrow> u64" where
  "HashText hash text = foldl (\<lambda>h c. hash_byte h (of_nat (byte_of c))) hash text"

definition draw_hash :: "string \<Rightarrow> string \<Rightarrow> u64 \<Rightarrow> u64 \<Rightarrow> u64" where
  "draw_hash sourceEntityId targetEntityId messageSerial revision =
     foldl (\<lambda>h i. hash_byte (hash_byte h (drop_bit (i * 8) messageSerial AND 0xff))
         (drop_bit (i * 8) revision AND 0xff))
       (HashText (HashText 1469598103934665603 sourceEntityId) targetEntityId) [0..<8]"

definition UnitDraw :: "string \<Rightarrow> string \<Rightarrow> u64 \<Rightarrow> u64 \<Rightarrow> double" where
  "UnitDraw sourceEntityId targetEntityId messageSerial revision =
     d_div (d_of_nat (unat (drop_bit 11 (draw_hash sourceEntityId targetEntityId messageSerial revision))))
       (d_of_nat (unat (push_bit 53 1 :: u64)))"

section \<open>Reading a metrics line\<close>

text \<open>One object of the \<open>links\<close> array.\<close>

definition read_link :: "string \<Rightarrow> profiles \<Rightarrow> profiles result" where
  "read_link object profiles =
     rbind (JsonString object ''state'' 0) (\<lambda>state.
     rbind (JsonDouble object ''delay_ms'') (\<lambda>delay.
     rbind (JsonDouble object ''configured_loss_rate'') (\<lambda>loss.
     rbind (JsonString object ''source_entity_id'' 0) (\<lambda>source.
     rbind (JsonString object ''target_entity_id'' 0) (\<lambda>target.
       Inr (map_put (source, target)
         \<lparr>connected = (state = ''UP''), delayMs = d_max (Fin 0) delay,
          lossRate = d_max (Fin 0) (d_min (Fin 1) loss)\<rparr> profiles))))))"

text \<open>
  One object of the \<open>metrics\<close> array. The right operand of \<open>&&\<close> is read only when the left
  one is true; \<open>profiles[key]\<close> creates the default profile for a new pair.
\<close>

definition read_metric :: "string \<Rightarrow> profiles \<Rightarrow> profiles result" where
  "read_metric object profiles =
     rbind (JsonString object ''source_entity_id'' 0) (\<lambda>source.
     rbind (JsonString object ''target_entity_id'' 0) (\<lambda>target.
       let profile = (case map_find profiles (source, target) of
           Some p \<Rightarrow> p | None \<Rightarrow> new_profile) in
     rbind (JsonBool object ''connected'') (\<lambda>isConnected.
     rbind (if isConnected
         then rbind (JsonString object ''link_state'' 0) (\<lambda>linkState. Inr (linkState = ''UP''))
         else Inr False) (\<lambda>up.
     rbind (JsonDouble object ''latency_ms'') (\<lambda>latency.
       Inr (map_put (source, target)
         (profile\<lparr>connected := up,
            delayMs := d_max (delayMs profile) (d_max (Fin 0) latency)\<rparr>) profiles))))))"

definition read_profiles :: "string \<Rightarrow> (u64 \<times> profiles) option result" where
  "read_profiles jsonLine =
     rbind (JsonString jsonLine ''message_type'' 0) (\<lambda>messageType.
       if messageType \<noteq> ''ns3_metrics'' then Inr None
       else
         rbind (JsonUint64 jsonLine ''revision'') (\<lambda>revision.
         rbind (ObjectArray jsonLine ''links'') (\<lambda>links.
         rbind (rfold read_link links []) (\<lambda>profiles.
         rbind (ObjectArray jsonLine ''metrics'') (\<lambda>metrics.
         rbind (rfold read_metric metrics profiles) (\<lambda>profiles.
           Inr (Some (revision, profiles))))))))"

section \<open>The operations\<close>

definition UpdateFromMetricsJson ::
  "string \<Rightarrow> MessageTransportGate \<Rightarrow> (bool \<times> MessageTransportGate) result" where
  "UpdateFromMetricsJson jsonLine gate =
     rbind (read_profiles jsonLine) (\<lambda>r.
       case r of
         None \<Rightarrow> Inr (False, gate)
       | Some (revision, profiles) \<Rightarrow>
           if revision \<le> mLatestRevision gate then Inr (False, gate)
           else Inr (True, \<lparr>mProfiles = profiles, mLatestRevision = revision\<rparr>))"

definition Decide ::
  "MessageTransportGate \<Rightarrow> string \<Rightarrow> string \<Rightarrow> u64 \<Rightarrow> MessageTransportDecision" where
  "Decide gate sourceEntityId targetEntityId messageSerial =
     (let decision = \<lparr>dec_sourceEntityId = sourceEntityId, dec_targetEntityId = targetEntityId,
        dec_disposition = NoLink, dec_delayMs = Fin 0, dec_lossRate = Fin 1,
        dec_revision = mLatestRevision gate, dec_reason = ''NO_NETWORK_PROFILE''\<rparr> in
      case map_find (mProfiles gate) (sourceEntityId, targetEntityId) of
        None \<Rightarrow> decision
      | Some found \<Rightarrow>
          (let decision = decision\<lparr>dec_delayMs := delayMs found, dec_lossRate := lossRate found\<rparr> in
           if \<not> connected found then decision\<lparr>dec_reason := ''LINK_DOWN''\<rparr>
           else if d_le (Fin 1) (lossRate found) \<or>
             d_lt (UnitDraw sourceEntityId targetEntityId messageSerial (mLatestRevision gate)) (lossRate found)
           then decision\<lparr>dec_disposition := Drop, dec_reason := ''PACKET_LOSS''\<rparr>
           else decision\<lparr>dec_disposition := Deliver, dec_reason := ''NONE''\<rparr>))"

definition LatestRevision :: "MessageTransportGate \<Rightarrow> u64" where
  "LatestRevision gate = mLatestRevision gate"


section \<open>The gate is a replacing revision gate\<close>

definition install_profiles :: "u64 \<Rightarrow> profiles \<Rightarrow> MessageTransportGate \<Rightarrow> MessageTransportGate" where
  "install_profiles revision profiles gate = \<lparr>mProfiles = profiles, mLatestRevision = revision\<rparr>"

text \<open>The gate after a caller has passed it a line and dropped the exception, if any.\<close>

definition message_gate_step :: "string \<Rightarrow> MessageTransportGate \<Rightarrow> MessageTransportGate" where
  "message_gate_step l gate =
     (case UpdateFromMetricsJson l gate of Inl _ \<Rightarrow> gate | Inr (_, gate') \<Rightarrow> gate')"

interpretation message: replacing_gate mLatestRevision read_profiles install_profiles message_gate_step
  by unfold_locales (auto simp: message_gate_step_def UpdateFromMetricsJson_def install_profiles_def)

text \<open>
  C12. The gate converges: when lines of equal revision carry equal profiles, its state after
  any run of lines is determined by the set of lines received, whatever their order, however
  often each is repeated, and whatever lines in between throw or are of another type.
\<close>

theorem message_gate_order_independent:
  assumes "set ls = set ms"
    and "\<And>l m r p q. l \<in> set ls \<Longrightarrow> m \<in> set ls \<Longrightarrow> read_profiles l = Inr (Some (r, p)) \<Longrightarrow>
      read_profiles m = Inr (Some (r, q)) \<Longrightarrow> p = q"
  shows "fold message_gate_step ls gate = fold message_gate_step ms gate"
proof -
  have "message.payload l = Some (r, p) \<longleftrightarrow> read_profiles l = Inr (Some (r, p))" for l r p
    by (auto simp: message.payload_def split: sum.splits)
  then show ?thesis
    using message.run_order_independent [OF assms(1), of gate] assms(2)
    by (auto simp: message.run_def)
qed

text \<open>A metrics line with one communicating pair and no link.\<close>

definition sample_metrics_line :: string where
  "sample_metrics_line =
     ''{\"message_type\":\"ns3_metrics\",\"revision\":3,\"links\":[],\"metrics\":[''
     @ ''{\"source_entity_id\":\"a\",\"target_entity_id\":\"b\",\"connected\":true,\"link_state\":\"UP\",''
     @ ''\"latency_ms\":2.5}]}''"

lemma read_sample_metrics_line:
  "read_profiles sample_metrics_line =
    Inr (Some (3, [((''a'', ''b''), \<lparr>connected = True, delayMs = Fin (5 / 2), lossRate = Fin 1\<rparr>)]))"
  by (simp add: sample_metrics_line_def read_profiles_def read_metric_def new_profile_def map_find_def
      scan_eval number_eval)

lemma read_empty_object: "read_profiles ''{}'' = Inl (Runtime_Error ''missing JSON field: message_type'')"
  by (simp add: read_profiles_def scan_eval)

theorem message_gate_order_independent_witness:
  "fold message_gate_step [sample_metrics_line, ''{}''] new_message_gate =
   fold message_gate_step [''{}'', sample_metrics_line, sample_metrics_line] new_message_gate"
  by (rule message_gate_order_independent) (auto simp: read_sample_metrics_line read_empty_object)

section \<open>The draw\<close>

lemma UnitDraw_eq:
  "UnitDraw s t serial revision = Fin (of_nat (unat (draw_hash s t serial revision) div 2 ^ 11) / 2 ^ 53)"
    (is ?exact)
  and UnitDraw_range: "\<exists>u. UnitDraw s t serial revision = Fin u \<and> 0 \<le> u \<and> u < 1"
proof -
  let ?k = "unat (draw_hash s t serial revision) div 2 ^ 11"
  have "unat (draw_hash s t serial revision) < 2 ^ 64"
    using unsigned_less [of "draw_hash s t serial revision", where ?'a = nat] by simp
  then have k: "?k < 2 ^ 53" by (simp add: div_less_iff_less_mult)
  have top: "d_of_nat (unat (drop_bit 11 (draw_hash s t serial revision))) = Fin (of_nat ?k)"
    using d_of_nat_exact [OF k] by (simp add: drop_bit_eq_div unat_div)
  have "representable (2 ^ 53)" using representableI [of 1 53] by simp
  then have "fl (2 ^ 53) = Fin (2 ^ 53)" by (rule fl_representable) simp
  then have bottom: "d_of_nat 9007199254740992 = Fin 9007199254740992"
    by (simp add: d_of_nat_def)
  have kr: "(of_nat ?k :: rat) < 2 ^ 53"
    using k by (metis of_nat_less_iff of_nat_numeral of_nat_power)
  have "representable (of_nat ?k / 2 ^ 53)" by (rule representable_nat_scaled [OF k]) simp
  then have "fl (of_nat ?k / 2 ^ 53) = Fin (of_nat ?k / 2 ^ 53)"
    using kr by (intro fl_representable) auto
  then show ?exact
    by (auto simp: UnitDraw_def top bottom signed_zero_def simp del: of_nat_eq_0_iff)
  then show "\<exists>u. UnitDraw s t serial revision = Fin u \<and> 0 \<le> u \<and> u < 1"
    using kr by (intro exI [of _ "of_nat ?k / 2 ^ 53"]) simp
qed
text \<open>
  C15. The draw is the top 53 bits of the hash over \<open>2 ^ 53\<close>, without rounding, so it lies in
  the interval from 0 up to but not including 1.
\<close>

theorem UnitDraw_exact:
  "UnitDraw s t serial revision = Fin (of_nat (unat (draw_hash s t serial revision) div 2 ^ 11) / 2 ^ 53) \<and>
   0 \<le> dval (UnitDraw s t serial revision) \<and> dval (UnitDraw s t serial revision) < 1"
  using UnitDraw_eq [of s t serial revision] UnitDraw_range [of s t serial revision] by auto

section \<open>The invariant and the decision\<close>

definition profile_ok :: "Profile \<Rightarrow> bool" where
  "profile_ok p \<longleftrightarrow> isfinite (delayMs p) \<and> 0 \<le> dval (delayMs p) \<and>
     isfinite (lossRate p) \<and> 0 \<le> dval (lossRate p) \<and> dval (lossRate p) \<le> 1"

definition profiles_ok :: "profiles \<Rightarrow> bool" where
  "profiles_ok m \<longleftrightarrow> map_ok m \<and> (\<forall>k p. map_find m k = Some p \<longrightarrow> profile_ok p)"

lemma JsonDouble_finite: "JsonDouble object key = Inr x \<Longrightarrow> isfinite x"
  by (auto simp: JsonDouble_def rbind_eq_Inr split: prod.splits if_splits)

lemma profiles_ok_put: "profiles_ok m \<Longrightarrow> profile_ok p \<Longrightarrow> profiles_ok (map_put k p m)"
  by (auto simp: profiles_ok_def map_ok_put map_find_put split: if_splits)

lemma profiles_ok_read_link:
  assumes "read_link object m = Inr m'" and "profiles_ok m"
  shows "profiles_ok m'"
  using assms
  by (auto simp: read_link_def rbind_eq_Inr profile_ok_def d_max_finite d_min_finite
      dest!: JsonDouble_finite intro!: profiles_ok_put)

lemma profiles_ok_read_metric:
  assumes "read_metric object m = Inr m'" and "profiles_ok m"
  shows "profiles_ok m'"
proof -
  have "profile_ok (case map_find m k of Some p \<Rightarrow> p | None \<Rightarrow> new_profile)" for k
  proof -
    have "profile_ok new_profile" by (simp add: profile_ok_def new_profile_def)
    then show ?thesis using assms(2) by (cases k) (auto simp: profiles_ok_def split: option.split)
  qed
  then show ?thesis using assms
    by (auto simp: read_metric_def rbind_eq_Inr Let_def profile_ok_def d_max_finite max_def
        dest!: JsonDouble_finite intro!: profiles_ok_put)
qed

lemma profiles_ok_read:
  assumes "read_profiles jsonLine = Inr (Some (revision, m))"
  shows "profiles_ok m"
proof -
  have "profiles_ok []" by (simp add: profiles_ok_def)
  then show ?thesis
    using assms by (auto simp: read_profiles_def rbind_eq_Inr split: if_splits
        elim!: rfold_invariant [where P = profiles_ok] intro: profiles_ok_read_link profiles_ok_read_metric)
qed

text \<open>
  C13. Every profile the gate ever holds has a finite nonnegative delay and a loss rate between
  0 and 1, whatever metrics lines it has been given, malformed ones included; so every
  decision reports such a delay and such a rate.
\<close>

theorem message_gate_invariant:
  "let gate = fold message_gate_step ls new_message_gate; d = Decide gate s t serial in
     profiles_ok (mProfiles gate) \<and> isfinite (dec_delayMs d) \<and> 0 \<le> dval (dec_delayMs d) \<and>
     isfinite (dec_lossRate d) \<and> 0 \<le> dval (dec_lossRate d) \<and> dval (dec_lossRate d) \<le> 1"
proof -
  have "profiles_ok (mProfiles (fold message_gate_step ls new_message_gate))"
  proof (induction ls rule: rev_induct)
    case Nil
    then show ?case by (simp add: new_message_gate_def profiles_ok_def)
  next
    case (snoc l ls)
    then show ?case
      by (auto simp: message.step_cases message.payload_def install_profiles_def
          dest: profiles_ok_read split: option.splits sum.splits)
  qed
  then show ?thesis
    by (auto simp: Decide_def Let_def profiles_ok_def profile_ok_def split: option.splits)
qed

text \<open>
  C14. What a decision means: with no profile there is no link; with a link that is down there
  is none either; otherwise the message is dropped exactly when its draw is below the loss
  rate and delivered exactly when it is not, up to and including the rates 0 and 1.
\<close>

theorem Decide_outcome:
  assumes "profiles_ok (mProfiles gate)"
  shows "dec_disposition (Decide gate s t serial) =
    (case map_find (mProfiles gate) (s, t) of
       None \<Rightarrow> NoLink
     | Some p \<Rightarrow>
         if \<not> connected p then NoLink
         else if dval (UnitDraw s t serial (mLatestRevision gate)) < dval (lossRate p) then Drop
         else Deliver)"
proof -
  obtain u where u: "UnitDraw s t serial (mLatestRevision gate) = Fin u" "u < 1"
    using UnitDraw_range by metis
  have "d_le (Fin 1) (lossRate p) \<or> d_lt (Fin u) (lossRate p) \<longleftrightarrow> u < dval (lossRate p)"
    if "map_find (mProfiles gate) (s, t) = Some p" for p
    using that assms u(2) by (auto simp: profiles_ok_def profile_ok_def d_le_finite d_lt_finite)
  then show ?thesis by (auto simp: Decide_def Let_def u(1) split: option.split)
qed

definition sample_gate :: MessageTransportGate where
  "sample_gate = \<lparr>mProfiles = [((''a'', ''b''), \<lparr>connected = True, delayMs = Fin 5, lossRate = Fin 1\<rparr>)],
     mLatestRevision = 4\<rparr>"

theorem Decide_outcome_witness:
  "dec_disposition (Decide sample_gate ''a'' ''b'' 9) = Drop"
proof -
  have ok: "profiles_ok (mProfiles sample_gate)"
    by (simp add: profiles_ok_def sample_gate_def map_ok_def map_find_def profile_ok_def)
  obtain u where "UnitDraw ''a'' ''b'' 9 (mLatestRevision sample_gate) = Fin u" "u < 1"
    using UnitDraw_range by metis
  then show ?thesis
    using Decide_outcome [OF ok, of "''a''" "''b''" 9] by (simp add: sample_gate_def map_find_def)
qed

section \<open>A pair known only from its metrics\<close>

lemma find_read_link:
  assumes "read_link object m = Inr m'" and "map_ok m"
  shows "map_ok m' \<and> (map_find m' (s, t) = map_find m (s, t) \<or>
    JsonString object ''source_entity_id'' 0 = Inr s \<and> JsonString object ''target_entity_id'' 0 = Inr t)"
  using assms by (auto simp: read_link_def rbind_eq_Inr map_ok_put map_find_put split: if_splits)

lemma find_read_metric:
  assumes "read_metric object m = Inr m'" and "map_ok m"
    and "\<forall>p. map_find m k = Some p \<longrightarrow> lossRate p = Fin 1"
  shows "map_ok m' \<and> (\<forall>p. map_find m' k = Some p \<longrightarrow> lossRate p = Fin 1)"
  using assms
  by (auto simp: read_metric_def rbind_eq_Inr Let_def map_ok_put map_find_put new_profile_def
      split: if_splits option.splits)

lemma read_profiles_SomeD:
  assumes "read_profiles jsonLine = Inr (Some (revision, profiles))"
    and "ObjectArray jsonLine ''links'' = Inr links"
  shows "\<exists>linked metrics. rfold read_link links [] = Inr linked \<and>
    rfold read_metric metrics linked = Inr profiles"
  using assms(1) unfolding read_profiles_def
  by (simp add: rbind_eq_Inr assms(2) split: if_splits) blast

lemma Decide_full_loss:
  assumes "\<And>p. map_find (mProfiles gate) (s, t) = Some p \<Longrightarrow> lossRate p = Fin 1"
  shows "dec_disposition (Decide gate s t serial) \<noteq> Deliver"
  using assms by (simp add: Decide_def Let_def d_le_def split: option.split)

text \<open>
  C21. A pair of entities that has an entry in \<open>metrics\<close> but no object in \<open>links\<close> (a pair that
  communicates over intermediate nodes) gets the default loss rate of 1, so no message
  between the two is ever delivered, connected or not.
\<close>

theorem metrics_only_pair_never_delivers:
  assumes "read_profiles jsonLine = Inr (Some (revision, profiles))"
    and "ObjectArray jsonLine ''links'' = Inr links"
    and "\<forall>object \<in> set links. \<not> (JsonString object ''source_entity_id'' 0 = Inr s \<and>
      JsonString object ''target_entity_id'' 0 = Inr t)"
    and "mLatestRevision gate < revision"
  shows "dec_disposition (Decide (message_gate_step jsonLine gate) s t serial) \<noteq> Deliver"
proof -
  obtain linked metrics where links: "rfold read_link links [] = Inr linked"
    and metrics: "rfold read_metric metrics linked = Inr profiles"
    using read_profiles_SomeD [OF assms(1,2)] by blast
  have "map_ok linked \<and> map_find linked (s, t) = None"
    using links
  proof (rule rfold_invariant)
    fix object m m'
    assume "object \<in> set links" and "map_ok m \<and> map_find m (s, t) = None" and "read_link object m = Inr m'"
    then show "map_ok m' \<and> map_find m' (s, t) = None"
      using find_read_link [of object m m' s t] assms(3) by auto
  qed simp
  have "map_ok profiles \<and> (\<forall>p. map_find profiles (s, t) = Some p \<longrightarrow> lossRate p = Fin 1)"
    using metrics
  proof (rule rfold_invariant)
    show "map_ok linked \<and> (\<forall>p. map_find linked (s, t) = Some p \<longrightarrow> lossRate p = Fin 1)"
      using \<open>map_ok linked \<and> map_find linked (s, t) = None\<close> by simp
  qed (use find_read_metric in blast)
  moreover have "mProfiles (message_gate_step jsonLine gate) = profiles"
    using assms(1,4) by (simp add: message.step_newer install_profiles_def)
  ultimately show ?thesis by (intro Decide_full_loss) simp
qed

theorem metrics_only_pair_never_delivers_witness:
  "dec_disposition (Decide (message_gate_step sample_metrics_line new_message_gate) ''a'' ''b'' 1) \<noteq> Deliver"
proof -
  have "ObjectArray sample_metrics_line ''links'' = Inr []"
    by (simp add: sample_metrics_line_def scan_eval)
  from metrics_only_pair_never_delivers [OF read_sample_metrics_line this] show ?thesis
    by (simp add: new_message_gate_def)
qed

end
