(* ===== verification/EffectGate.thy ===== *)
theory EffectGate
  imports ScanArrays CxxMap RevisionGate
begin

text \<open>
  \<open>src/windows_adapter/NetworkEffectGate.hpp\<close> and \<open>.cpp\<close>: the last reported state of every
  effect policy. The source file has its own copy of the field scanner, statement for
  statement the one of \<open>MessageTransportGate.cpp\<close>; the copies are named here with the prefix
  \<open>effect\<close>.
\<close>

section \<open>Data\<close>

datatype EffectState = Available | Degraded | Blocked

record EffectDecision =
  eff_entityId :: string
  eff_subsystemId :: string
  eff_subsystemType :: string
  eff_peerEntityId :: string
  eff_state :: EffectState
  eff_revision :: u64

type_synonym effect_states = "(string \<times> string, EffectState) cmap"

record NetworkEffectGate =
  mStates :: effect_states
  mEffectRevision :: u64

definition new_effect_gate :: NetworkEffectGate where
  "new_effect_gate = \<lparr>mStates = [], mEffectRevision = 0\<rparr>"

section \<open>Reading a metrics line\<close>

definition effect_ValueStart :: "string \<Rightarrow> string \<Rightarrow> nat \<Rightarrow> nat result" where
  "effect_ValueStart = ValueStart"

definition effect_JsonString :: "string \<Rightarrow> string \<Rightarrow> nat \<Rightarrow> string result" where
  "effect_JsonString = JsonString"

definition effect_JsonUint64 :: "string \<Rightarrow> string \<Rightarrow> u64 result" where
  "effect_JsonUint64 = JsonUint64"

definition effect_MatchingEnd :: "string \<Rightarrow> nat \<Rightarrow> char \<Rightarrow> char \<Rightarrow> nat result" where
  "effect_MatchingEnd = MatchingEnd"

lemmas effect_scanner = effect_ValueStart_def effect_JsonString_def effect_JsonUint64_def
  effect_MatchingEnd_def

definition ParseState :: "string \<Rightarrow> EffectState result" where
  "ParseState v =
     (if v = ''AVAILABLE'' then Inr Available
      else if v = ''DEGRADED'' then Inr Degraded
      else if v = ''BLOCKED'' then Inr Blocked
      else Inl (Runtime_Error ''unknown network effect state''))"

definition state_text :: "EffectState \<Rightarrow> string" where
  "state_text s = (case s of Available \<Rightarrow> ''AVAILABLE'' | Degraded \<Rightarrow> ''DEGRADED'' | Blocked \<Rightarrow> ''BLOCKED'')"

text \<open>The loop of \<open>EffectObjects\<close> is the one of \<open>ObjectArray\<close>, with the key in its messages.\<close>

definition EffectObjects :: "string \<Rightarrow> string list result" where
  "EffectObjects json =
     rbind (effect_ValueStart json ''effects'' 0) (\<lambda>pos.
       if length json \<le> pos \<or> json ! pos \<noteq> CHR ''[''
       then Inl (Runtime_Error ''effects must be a JSON array'')
       else rbind (effect_MatchingEnd json pos (CHR ''['') (CHR '']'')) (\<lambda>arrayEnd.
         object_loop json ''effects'' arrayEnd (pos + 1) []))"

definition read_decision :: "u64 \<Rightarrow> string \<Rightarrow> EffectDecision result" where
  "read_decision revision object =
     rbind (effect_JsonString object ''entity_id'' 0) (\<lambda>entityId.
     rbind (effect_JsonString object ''subsystem_id'' 0) (\<lambda>subsystemId.
     rbind (effect_JsonString object ''subsystem_type'' 0) (\<lambda>subsystemType.
     rbind (effect_JsonString object ''peer_entity_id'' 0) (\<lambda>peerEntityId.
     rbind (effect_JsonString object ''state'' 0) (\<lambda>text.
     rbind (ParseState text) (\<lambda>state.
       Inr \<lparr>eff_entityId = entityId, eff_subsystemId = subsystemId,
         eff_subsystemType = subsystemType, eff_peerEntityId = peerEntityId,
         eff_state = state, eff_revision = revision\<rparr>))))))"

definition read_decisions :: "string \<Rightarrow> (u64 \<times> EffectDecision list) option result" where
  "read_decisions jsonLine =
     rbind (effect_JsonString jsonLine ''message_type'' 0) (\<lambda>messageType.
       if messageType \<noteq> ''ns3_metrics'' then Inr None
       else
         rbind (effect_JsonUint64 jsonLine ''revision'') (\<lambda>revision.
         rbind (EffectObjects jsonLine) (\<lambda>objects.
         rbind (rmap (read_decision revision) objects) (\<lambda>decisions.
           Inr (Some (revision, decisions))))))"

section \<open>The operations\<close>

definition record_states :: "EffectDecision list \<Rightarrow> effect_states \<Rightarrow> effect_states" where
  "record_states decisions states =
     fold (\<lambda>d. map_put (eff_entityId d, eff_subsystemId d) (eff_state d)) decisions states"

definition UpdateEffects ::
  "string \<Rightarrow> NetworkEffectGate \<Rightarrow> (EffectDecision list \<times> NetworkEffectGate) result" where
  "UpdateEffects jsonLine gate =
     rbind (read_decisions jsonLine) (\<lambda>r.
       case r of
         None \<Rightarrow> Inr ([], gate)
       | Some (revision, decisions) \<Rightarrow>
           if revision \<le> mEffectRevision gate then Inr ([], gate)
           else Inr (decisions,
             \<lparr>mStates = record_states decisions (mStates gate), mEffectRevision = revision\<rparr>))"

definition GetState :: "NetworkEffectGate \<Rightarrow> string \<Rightarrow> string \<Rightarrow> EffectState" where
  "GetState gate entityId subsystemId =
     (case map_find (mStates gate) (entityId, subsystemId) of None \<Rightarrow> Blocked | Some s \<Rightarrow> s)"

definition CanOperate :: "NetworkEffectGate \<Rightarrow> string \<Rightarrow> string \<Rightarrow> bool" where
  "CanOperate gate entityId subsystemId \<longleftrightarrow> GetState gate entityId subsystemId \<noteq> Blocked"

definition EffectLatestRevision :: "NetworkEffectGate \<Rightarrow> u64" where
  "EffectLatestRevision gate = mEffectRevision gate"

section \<open>The gate is a revision gate\<close>

definition install_decisions :: "u64 \<Rightarrow> EffectDecision list \<Rightarrow> NetworkEffectGate \<Rightarrow> NetworkEffectGate" where
  "install_decisions revision decisions gate =
     \<lparr>mStates = record_states decisions (mStates gate), mEffectRevision = revision\<rparr>"

definition effect_gate_step :: "string \<Rightarrow> NetworkEffectGate \<Rightarrow> NetworkEffectGate" where
  "effect_gate_step l gate = (case UpdateEffects l gate of Inl _ \<Rightarrow> gate | Inr (_, gate') \<Rightarrow> gate')"

interpretation effect: revision_gate mEffectRevision read_decisions install_decisions effect_gate_step
  by unfold_locales (auto simp: effect_gate_step_def UpdateEffects_def install_decisions_def)

lemma EffectObjects_ObjectArray: "EffectObjects json = ObjectArray json ''effects''"
  unfolding EffectObjects_def ObjectArray_def effect_scanner append_Cons append_Nil by (rule refl)

text \<open>The entry a list of decisions leaves for a key: the last one in the list.\<close>

definition last_state :: "string \<times> string \<Rightarrow> EffectDecision list \<Rightarrow> EffectState option" where
  "last_state k decisions =
     map_of (rev (map (\<lambda>d. ((eff_entityId d, eff_subsystemId d), eff_state d)) decisions)) k"

lemma record_states_put_all:
  "record_states decisions m =
    cmap.put_all (map (\<lambda>d. ((eff_entityId d, eff_subsystemId d), eff_state d)) decisions) m"
  by (simp add: record_states_def cmap.put_all_def fold_map o_def)

lemma find_record_states:
  "map_ok m \<Longrightarrow> map_find (record_states decisions m) k =
    (case last_state k decisions of Some s \<Rightarrow> Some s | None \<Rightarrow> map_find m k)"
  unfolding record_states_put_all last_state_def by (rule cmap.find_put_all)

lemma map_ok_record_states: "map_ok m \<Longrightarrow> map_ok (record_states decisions m)"
  unfolding record_states_put_all by (rule cmap.ok_put_all)

lemma effect_gate_ok: "map_ok (mStates gate) \<Longrightarrow> map_ok (mStates (effect_gate_step l gate))"
  by (auto simp: effect.step_cases install_decisions_def map_ok_record_states split: option.splits)

text \<open>
  C16. An update with a newer revision returns all its decisions and sets exactly the policies
  they name: every later query gives the last decision for its policy, and what was known
  before for every other policy. A policy never reported is blocked.
\<close>

theorem effect_update_states:
  assumes "read_decisions jsonLine = Inr (Some (revision, decisions))"
    and "mEffectRevision gate < revision" and "map_ok (mStates gate)"
  shows "\<exists>gate'. UpdateEffects jsonLine gate = Inr (decisions, gate') \<and> mEffectRevision gate' = revision \<and>
    map_ok (mStates gate') \<and>
    (\<forall>e s. GetState gate' e s =
      (case last_state (e, s) decisions of Some st \<Rightarrow> st | None \<Rightarrow> GetState gate e s)) \<and>
    GetState new_effect_gate e s = Blocked"
  using assms
  by (auto simp: UpdateEffects_def GetState_def find_record_states map_ok_record_states new_effect_gate_def
      split: option.split)

definition sample_effects_line :: string where
  "sample_effects_line =
     ''{\"message_type\":\"ns3_metrics\",\"revision\":2,\"effects\":[''
     @ ''{\"entity_id\":\"e\",\"subsystem_id\":\"radar\",\"subsystem_type\":\"sensor\",''
     @ ''\"peer_entity_id\":\"f\",\"state\":\"DEGRADED\"}]}''"

definition sample_decision :: EffectDecision where
  "sample_decision = \<lparr>eff_entityId = ''e'', eff_subsystemId = ''radar'', eff_subsystemType = ''sensor'',
     eff_peerEntityId = ''f'', eff_state = Degraded, eff_revision = 2\<rparr>"

lemma read_sample_effects_line: "read_decisions sample_effects_line = Inr (Some (2, [sample_decision]))"
  by (simp add: sample_effects_line_def sample_decision_def read_decisions_def EffectObjects_ObjectArray
      read_decision_def ParseState_def effect_scanner scan_eval)

theorem effect_update_states_witness:
  "\<exists>gate'. UpdateEffects sample_effects_line new_effect_gate = Inr ([sample_decision], gate') \<and>
    GetState gate' ''e'' ''radar'' = Degraded \<and> GetState gate' ''e'' ''gun'' = Blocked"
  using effect_update_states [OF read_sample_effects_line, of new_effect_gate "''e''" "''gun''"]
  by (auto simp: new_effect_gate_def last_state_def sample_decision_def)

text \<open>
  C17. The revision the gate reports never decreases, a line already read never changes the
  gate again, and a line whose revision is not newer neither changes it nor returns decisions.
\<close>

theorem effect_gate_monotone:
  "mEffectRevision gate \<le> mEffectRevision (fold effect_gate_step ls gate) \<and>
   (\<forall>m. set m \<subseteq> set ls \<longrightarrow> fold effect_gate_step m (fold effect_gate_step ls gate) = fold effect_gate_step ls gate) \<and>
   (\<forall>l r ds. read_decisions l = Inr (Some (r, ds)) \<longrightarrow> r \<le> mEffectRevision gate \<longrightarrow>
     UpdateEffects l gate = Inr ([], gate))"
  using effect.latest_run_mono [of gate ls] effect.replay_all_ignored [of _ ls gate]
  by (auto simp: effect.run_def UpdateEffects_def)


theorem effect_gate_monotone_witness:
  "UpdateEffects sample_effects_line (effect_gate_step sample_effects_line new_effect_gate) =
    Inr ([], effect_gate_step sample_effects_line new_effect_gate)"
proof -
  let ?gate = "effect_gate_step sample_effects_line new_effect_gate"
  have "mEffectRevision new_effect_gate < 2" by (simp add: new_effect_gate_def)
  then have "2 \<le> mEffectRevision ?gate"
    by (simp add: effect.step_newer [OF read_sample_effects_line] install_decisions_def)
  then show ?thesis
    using conjunct2 [OF conjunct2 [OF effect_gate_monotone [of ?gate "[]"]]] read_sample_effects_line
    by (metis)
qed

end
