(* ===== verification/DeltaTracker.thy ===== *)
theory DeltaTracker
  imports Protocol CxxMap
begin

text \<open>
  \<open>src/windows_adapter/StateDeltaTracker.hpp\<close> and \<open>.cpp\<close>: the baseline of entities and flows
  and the changes between it and the next state. An operation returns the result, or the
  exception, together with the tracker it leaves, because \<open>Reset\<close> has stored the entities
  when it throws for the flows.
\<close>

section \<open>Comparing states\<close>

definition Same_Position :: "Position \<Rightarrow> Position \<Rightarrow> bool" where
  "Same_Position left right \<longleftrightarrow>
     d_eq (xM left) (xM right) \<and> d_eq (yM left) (yM right) \<and> d_eq (zM left) (zM right)"

definition Same_Velocity :: "Velocity \<Rightarrow> Velocity \<Rightarrow> bool" where
  "Same_Velocity left right \<longleftrightarrow>
     d_eq (vxMps left) (vxMps right) \<and> d_eq (vyMps left) (vyMps right) \<and> d_eq (vzMps left) (vzMps right)"

definition Same_Device :: "DeviceConfig \<Rightarrow> DeviceConfig \<Rightarrow> bool" where
  "Same_Device left right \<longleftrightarrow>
     dev_deviceId left = dev_deviceId right \<and>
     dev_peerEntityId left = dev_peerEntityId right \<and>
     dev_kind left = dev_kind right \<and>
     dev_dataRateBps left = dev_dataRateBps right \<and>
     d_eq (dev_delayMs left) (dev_delayMs right) \<and>
     d_eq (dev_lossRate left) (dev_lossRate right) \<and>
     dev_linkState left = dev_linkState right"

definition Same_Policy :: "EffectPolicy \<Rightarrow> EffectPolicy \<Rightarrow> bool" where
  "Same_Policy left right \<longleftrightarrow>
     pol_subsystemId left = pol_subsystemId right \<and>
     pol_subsystemType left = pol_subsystemType right \<and>
     pol_peerEntityId left = pol_peerEntityId right \<and>
     d_eq (pol_maxDelayMs left) (pol_maxDelayMs right) \<and>
     d_eq (pol_maxLossRate left) (pol_maxLossRate right) \<and>
     d_eq (pol_minThroughputBps left) (pol_minThroughputBps right) \<and>
     pol_violationState left = pol_violationState right"

definition SameVector :: "('v \<Rightarrow> 'v \<Rightarrow> bool) \<Rightarrow> 'v list \<Rightarrow> 'v list \<Rightarrow> bool" where
  "SameVector same left right \<longleftrightarrow>
     length left = length right \<and> list_all (\<lambda>(a, b). same a b) (zip left right)"

definition Same_Entity :: "EntityState \<Rightarrow> EntityState \<Rightarrow> bool" where
  "Same_Entity left right \<longleftrightarrow>
     ent_entityId left = ent_entityId right \<and>
     ent_businessNodeId left = ent_businessNodeId right \<and>
     ent_parentEntityId left = ent_parentEntityId right \<and>
     ent_hasParent left = ent_hasParent right \<and>
     Same_Position (ent_position left) (ent_position right) \<and>
     Same_Velocity (ent_velocity left) (ent_velocity right) \<and>
     d_eq (ent_headingDeg left) (ent_headingDeg right) \<and>
     ent_alive left = ent_alive right \<and>
     SameVector Same_Device (ent_devices left) (ent_devices right) \<and>
     SameVector Same_Policy (ent_effectPolicies left) (ent_effectPolicies right)"

definition Same_Flow :: "FlowConfig \<Rightarrow> FlowConfig \<Rightarrow> bool" where
  "Same_Flow left right \<longleftrightarrow>
     flow_flowId left = flow_flowId right \<and>
     flow_sourceEntityId left = flow_sourceEntityId right \<and>
     flow_targetEntityId left = flow_targetEntityId right \<and>
     flow_packetSizeBytes left = flow_packetSizeBytes right \<and>
     flow_intervalMs left = flow_intervalMs right \<and>
     flow_durationMs left = flow_durationMs right \<and>
     flow_active left = flow_active right"

section \<open>The operations\<close>

abbreviation bad_state :: exn where
  "bad_state \<equiv> Invalid_Argument ''state contains an empty or duplicate ID''"

definition index_step :: "('v \<Rightarrow> string) \<Rightarrow> 'v \<Rightarrow> (string, 'v) cmap \<Rightarrow> (string, 'v) cmap result" where
  "index_step idGetter v indexed =
     (let id = idGetter v; (inserted, indexed') = map_emplace id v indexed in
      if id = [] \<or> \<not> inserted then Inl bad_state else Inr indexed')"

definition Index :: "('v \<Rightarrow> string) \<Rightarrow> 'v list \<Rightarrow> (string, 'v) cmap result" where
  "Index idGetter elems = rfold (index_step idGetter) elems []"

record StateDeltaTracker =
  mEntities :: "(string, EntityState) cmap"
  mFlows :: "(string, FlowConfig) cmap"
  mInitialized :: bool

definition new_tracker :: StateDeltaTracker where
  "new_tracker = \<lparr>mEntities = [], mFlows = [], mInitialized = False\<rparr>"

definition Initialized :: "StateDeltaTracker \<Rightarrow> bool" where
  "Initialized tracker = mInitialized tracker"

definition Reset ::
  "EntityState list \<Rightarrow> FlowConfig list \<Rightarrow> StateDeltaTracker \<Rightarrow> unit result \<times> StateDeltaTracker" where
  "Reset entities flows tracker =
     (case Index ent_entityId entities of
        Inl e \<Rightarrow> (Inl e, tracker)
      | Inr es \<Rightarrow>
          (let tracker = tracker\<lparr>mEntities := es\<rparr> in
           case Index flow_flowId flows of
             Inl e \<Rightarrow> (Inl e, tracker)
           | Inr fs \<Rightarrow> (Inr (), tracker\<lparr>mFlows := fs, mInitialized := True\<rparr>)))"

text \<open>The two loops over a pair of maps: new or changed values, and the keys that are gone.\<close>

definition upserts :: "('v \<Rightarrow> 'v \<Rightarrow> bool) \<Rightarrow> (string, 'v) cmap \<Rightarrow> (string, 'v) cmap \<Rightarrow> 'v list" where
  "upserts same old current =
     map snd (filter (\<lambda>(k, v). case map_find old k of None \<Rightarrow> True | Some o' \<Rightarrow> \<not> same o' v) current)"

definition removals :: "(string, 'v) cmap \<Rightarrow> (string, 'v) cmap \<Rightarrow> string list" where
  "removals old current = map fst (filter (\<lambda>(k, v). \<not> map_has current k) old)"

definition Update ::
  "EntityState list \<Rightarrow> FlowConfig list \<Rightarrow> StateDeltaTracker \<Rightarrow> DeltaState result \<times> StateDeltaTracker" where
  "Update entities flows tracker =
     (case rbind (Index ent_entityId entities) (\<lambda>es.
           rbind (Index flow_flowId flows) (\<lambda>fs. Inr (es, fs))) of
        Inl e \<Rightarrow> (Inl e, tracker)
      | Inr (currentEntities, currentFlows) \<Rightarrow>
          (Inr \<lparr>entityUpserts = upserts Same_Entity (mEntities tracker) currentEntities,
                entityRemovals = removals (mEntities tracker) currentEntities,
                flowUpserts = upserts Same_Flow (mFlows tracker) currentFlows,
                flowRemovals = removals (mFlows tracker) currentFlows\<rparr>,
           \<lparr>mEntities = currentEntities, mFlows = currentFlows, mInitialized = True\<rparr>))"

definition Empty :: "DeltaState \<Rightarrow> bool" where
  "Empty delta \<longleftrightarrow>
     entityUpserts delta = [] \<and> entityRemovals delta = [] \<and>
     flowUpserts delta = [] \<and> flowRemovals delta = []"

section \<open>Indexing\<close>

definition ids_ok :: "('v \<Rightarrow> string) \<Rightarrow> 'v list \<Rightarrow> bool" where
  "ids_ok idGetter elems \<longleftrightarrow> distinct (map idGetter elems) \<and> [] \<notin> idGetter ` set elems"

lemma index_from:
  assumes "map_ok m"
  shows "if ids_ok idGetter elems \<and> (\<forall>v \<in> set elems. map_find m (idGetter v) = None)
    then \<exists>m'. rfold (index_step idGetter) elems m = Inr m' \<and> map_ok m' \<and>
      (\<forall>k v. map_find m' k = Some v \<longleftrightarrow> map_find m k = Some v \<or> v \<in> set elems \<and> idGetter v = k)
    else rfold (index_step idGetter) elems m = Inl bad_state"
  using assms
proof (induction elems arbitrary: m)
  case Nil
  then show ?case by (simp add: ids_ok_def)
next
  case (Cons v vs)
  let ?id = "idGetter v"
  show ?case
  proof (cases "?id = [] \<or> map_find m ?id \<noteq> None")
    case True
    then have "index_step idGetter v m = Inl bad_state"
      by (auto simp: index_step_def map_emplace_def map_has_def)
    with True show ?thesis by (auto simp: ids_ok_def)
  next
    case False
    then have step: "index_step idGetter v m = Inr (map_put ?id v m)"
      by (simp add: index_step_def map_emplace_def map_has_def)
    have "ids_ok idGetter vs \<and> (\<forall>w \<in> set vs. map_find (map_put ?id v m) (idGetter w) = None) \<longleftrightarrow>
        ids_ok idGetter (v # vs) \<and> (\<forall>w \<in> set (v # vs). map_find m (idGetter w) = None)"
      using False Cons.prems by (auto simp: ids_ok_def map_find_put image_iff)
    moreover have "map_find (map_put ?id v m) k = Some w \<longleftrightarrow> map_find m k = Some w \<or> w = v \<and> ?id = k" for k w
      using False Cons.prems by (auto simp: map_find_put)
    ultimately show ?thesis
      using Cons.IH [of "map_put ?id v m"] Cons.prems
      by (auto simp: step map_ok_put split: if_splits)
  qed
qed

lemma Index_ok:
  assumes "ids_ok idGetter elems"
  shows "\<exists>m. Index idGetter elems = Inr m \<and> map_ok m \<and>
    (\<forall>k v. map_find m k = Some v \<longleftrightarrow> v \<in> set elems \<and> idGetter v = k)"
  using index_from [of "[]" idGetter "elems"] assms by (simp add: Index_def)

lemma Index_bad: "\<not> ids_ok idGetter elems \<Longrightarrow> Index idGetter elems = Inl bad_state"
  using index_from [of "[]" idGetter "elems"] by (simp add: Index_def)

lemma Index_Inr:
  assumes "Index idGetter elems = Inr m"
  shows "ids_ok idGetter elems" and "map_ok m"
    and "map_find m k = Some v \<longleftrightarrow> v \<in> set elems \<and> idGetter v = k"
proof -
  show ok: "ids_ok idGetter elems" using assms Index_bad by fastforce
  from Index_ok [OF this] assms show "map_ok m" "map_find m k = Some v \<longleftrightarrow> v \<in> set elems \<and> idGetter v = k"
    by auto
qed

section \<open>What a receiver does with the changes\<close>

text \<open>
  The specification of a change list: the receiver drops the removed identifiers and stores the
  upserted values under theirs, in the order of \<open>apply_delta\<close> in the service
  (\<open>src/afsim_ns3_bridge/state.py\<close>).
\<close>

definition patch :: "('v \<Rightarrow> string) \<Rightarrow> 'v list \<Rightarrow> string list \<Rightarrow> (string, 'v) cmap \<Rightarrow> (string, 'v) cmap" where
  "patch idGetter ups gone m = cmap.put_all (map (\<lambda>v. (idGetter v, v)) ups) (fold map_erase gone m)"

definition keyed :: "('v \<Rightarrow> string) \<Rightarrow> (string, 'v) cmap \<Rightarrow> bool" where
  "keyed idGetter m \<longleftrightarrow> map_ok m \<and> (\<forall>k v. map_find m k = Some v \<longrightarrow> idGetter v = k)"

lemma map_ok_fold_erase: "map_ok m \<Longrightarrow> map_ok (fold map_erase ks m)"
  by (induction ks arbitrary: m) (simp_all add: map_ok_erase)

lemma find_fold_erase: "map_find (fold map_erase ks m) k = (if k \<in> set ks then None else map_find m k)"
  by (induction ks arbitrary: m) (auto simp: map_find_erase)

lemma map_ok_patch: "map_ok m \<Longrightarrow> map_ok (patch idGetter ups gone m)"
  by (simp add: patch_def map_ok_fold_erase cmap.ok_put_all)

lemma find_patch:
  "map_ok m \<Longrightarrow> map_find (patch idGetter ups gone m) k =
    (case map_of (rev (map (\<lambda>v. (idGetter v, v)) ups)) k of
       Some v \<Rightarrow> Some v | None \<Rightarrow> if k \<in> set gone then None else map_find m k)"
  by (simp add: patch_def find_fold_erase map_ok_fold_erase cmap.find_put_all split: option.split)

lemma set_upserts:
  "map_ok current \<Longrightarrow> v \<in> set (upserts same old current) \<longleftrightarrow>
    (\<exists>k. map_find current k = Some v \<and> (\<forall>w. map_find old k = Some w \<longrightarrow> \<not> same w v))"
  by (force simp: upserts_def map_entry_find split: option.splits)

lemma set_removals:
  "map_ok old \<Longrightarrow> k \<in> set (removals old current) \<longleftrightarrow> map_has old k \<and> \<not> map_has current k"
  by (force simp: removals_def map_has_def map_entry_find)

lemma sorted_removals: "map_ok old \<Longrightarrow> sorted_wrt (<) (removals old current)"
  unfolding removals_def map_ok_def sorted_wrt_map by (rule sorted_wrt_filter)

lemma upserts_ids:
  assumes "keyed idGetter current"
  shows "sorted_wrt (<) (map idGetter (upserts same old current))"
proof -
  let ?P = "\<lambda>(k, v). case map_find old k of None \<Rightarrow> True | Some w \<Rightarrow> \<not> same w v"
  have "idGetter v = k" if "(k, v) \<in> set current" for k v
    using that assms by (simp add: keyed_def map_entry_find)
  then have "map idGetter (upserts same old current) = map fst (filter ?P current)"
    by (auto simp: upserts_def)
  moreover have "sorted_wrt (<) (map fst (filter ?P current))"
    using assms sorted_wrt_filter unfolding keyed_def map_ok_def sorted_wrt_map by blast
  ultimately show ?thesis by simp
qed

section \<open>The contract of a change list\<close>

locale change_codec =
  fixes idGetter :: "'v \<Rightarrow> string"
    and same :: "'v \<Rightarrow> 'v \<Rightarrow> bool"
  assumes same_sym: "same a b \<Longrightarrow> same b a"
    and same_trans: "same a b \<Longrightarrow> same b c \<Longrightarrow> same a c"
begin

text \<open>
  Two values the receiver need not tell apart: equal ones, or ones the comparison equates
  (which may differ in the sign of a zero).
\<close>

definition alike :: "'v \<Rightarrow> 'v \<Rightarrow> bool" where
  "alike a b \<longleftrightarrow> a = b \<or> same a b"

definition maps_alike :: "(string, 'v) cmap \<Rightarrow> (string, 'v) cmap \<Rightarrow> bool" where
  "maps_alike m n \<longleftrightarrow> (\<forall>k. rel_option alike (map_find m k) (map_find n k))"

lemma alike_trans: "alike a b \<Longrightarrow> alike b c \<Longrightarrow> alike a c"
  using same_trans by (auto simp: alike_def)

lemma alike_sym: "alike a b \<Longrightarrow> alike b a"
  using same_sym by (auto simp: alike_def)

lemma maps_alike_refl: "maps_alike m m"
  by (simp add: maps_alike_def alike_def option.rel_refl)

lemma lookup_upserts:
  assumes "keyed idGetter current"
  shows "map_of (rev (map (\<lambda>v. (idGetter v, v)) (upserts same old current))) k =
    (case map_find current k of None \<Rightarrow> None
     | Some v \<Rightarrow> if \<exists>w. map_find old k = Some w \<and> same w v then None else Some v)"
proof -
  let ?kvs = "map (\<lambda>v. (idGetter v, v)) (upserts same old current)"
  have "distinct (map fst ?kvs)"
    using upserts_ids [OF assms, of same old] by (simp add: strict_sorted_iff o_def)
  then have d: "distinct (map fst (rev ?kvs))" by (simp add: rev_map [symmetric] del: map_map)
  have mem: "(k, v) \<in> set (rev ?kvs) \<longleftrightarrow>
      map_find current k = Some v \<and> (\<forall>w. map_find old k = Some w \<longrightarrow> \<not> same w v)" for v
    using assms by (force simp: keyed_def set_upserts)
  show ?thesis
  proof (cases "map_of (rev ?kvs) k")
    case None
    then have "\<forall>v. (k, v) \<notin> set (rev ?kvs)" by (metis d map_of_eq_Some_iff option.distinct(1))
    then show ?thesis using None mem by (auto split: option.split)
  next
    case (Some v)
    then show ?thesis using mem map_of_SomeD by fastforce
  qed
qed

text \<open>
  Applying the changes between two states to anything alike to the old state gives something
  alike to the new one.
\<close>

lemma patch_diff:
  assumes "maps_alike base old" and "map_ok base" and "map_ok old" and "keyed idGetter current"
  shows "maps_alike (patch idGetter (upserts same old current) (removals old current) base) current"
  unfolding maps_alike_def
proof
  fix k
  let ?m = "patch idGetter (upserts same old current) (removals old current) base"
  have base: "rel_option alike (map_find base k) (map_find old k)"
    using assms(1) by (simp add: maps_alike_def)
  have m: "map_find ?m k = (case (case map_find current k of None \<Rightarrow> None
       | Some v \<Rightarrow> if \<exists>w. map_find old k = Some w \<and> same w v then None else Some v) of
       Some v \<Rightarrow> Some v
     | None \<Rightarrow> if map_has old k \<and> \<not> map_has current k then None else map_find base k)"
    using assms by (auto simp: find_patch lookup_upserts set_removals split: option.split)
  show "rel_option alike (map_find ?m k) (map_find current k)"
  proof (cases "map_find current k")
    case None
    then show ?thesis using m base by (auto simp: map_has_def option_rel_Some2)
  next
    case (Some v)
    show ?thesis
    proof (cases "\<exists>w. map_find old k = Some w \<and> same w v")
      case True
      then obtain w b where "map_find old k = Some w" "same w v" "map_find base k = Some b" "alike b w"
        using base by (auto simp: option_rel_Some2)
      then show ?thesis using m Some alike_trans [of b w v] by (auto simp: map_has_def alike_def)
    next
      case False
      then have "map_find ?m k = Some v" using m Some by (auto simp: map_has_def)
      then show ?thesis using Some by (simp add: alike_def)
    qed
  qed
qed

lemma no_changes:
  assumes "map_ok old" and "keyed idGetter current"
  shows "upserts same old current = [] \<and> removals old current = [] \<longleftrightarrow>
    (\<forall>k. rel_option same (map_find old k) (map_find current k))"
proof -
  have "upserts same old current = [] \<longleftrightarrow>
      (\<forall>k v. map_find current k = Some v \<longrightarrow> (\<exists>w. map_find old k = Some w \<and> same w v))"
    using assms(2) set_upserts [of current _ same old]
    by (simp add: keyed_def set_empty [symmetric] set_eq_iff del: set_empty) blast
  moreover have "removals old current = [] \<longleftrightarrow> (\<forall>k. map_has old k \<longrightarrow> map_has current k)"
    using set_removals [OF assms(1), of _ current]
    by (simp add: set_empty [symmetric] set_eq_iff del: set_empty)
  moreover have "rel_option same (map_find old k) (map_find current k) \<longleftrightarrow>
      (\<forall>v. map_find current k = Some v \<longrightarrow> (\<exists>w. map_find old k = Some w \<and> same w v)) \<and>
      (map_has old k \<longrightarrow> map_has current k)" for k
    by (cases "map_find old k"; cases "map_find current k") (auto simp: map_has_def)
  ultimately show ?thesis by auto
qed

end

section \<open>Both collections satisfy the contract\<close>

definition partial_equiv :: "('v \<Rightarrow> 'v \<Rightarrow> bool) \<Rightarrow> bool" where
  "partial_equiv P \<longleftrightarrow> (\<forall>a b. P a b \<longrightarrow> P b a) \<and> (\<forall>a b c. P a b \<longrightarrow> P b c \<longrightarrow> P a c)"

lemma partial_equiv_conj:
  "partial_equiv P \<Longrightarrow> partial_equiv Q \<Longrightarrow> partial_equiv (\<lambda>a b. P a b \<and> Q a b)"
  unfolding partial_equiv_def by blast

lemma partial_equiv_eq: "partial_equiv (\<lambda>a b. f a = f b)"
  unfolding partial_equiv_def by simp

lemma partial_equiv_on: "partial_equiv P \<Longrightarrow> partial_equiv (\<lambda>a b. P (f a) (f b))"
  unfolding partial_equiv_def by blast

lemma partial_equiv_d_eq: "partial_equiv (\<lambda>a b. d_eq (f a) (f b))"
  by (rule partial_equiv_on) (auto simp: partial_equiv_def intro: d_eq_sym d_eq_trans)

lemma partial_equiv_vector:
  assumes "partial_equiv P"
  shows "partial_equiv (\<lambda>a b. SameVector P (f a) (f b))"
proof -
  have eq: "SameVector P l r = list_all2 P l r" for l r
    by (simp add: SameVector_def list_all2_iff list_all_iff)
  have sym: "list_all2 P ys xs" if "list_all2 P xs ys" for xs ys
    using that assms unfolding list_all2_conv_all_nth partial_equiv_def by metis
  have trans: "list_all2 P xs zs" if "list_all2 P xs ys" "list_all2 P ys zs" for xs ys zs
  proof (rule list_all2_trans [OF _ that])
    fix a b c
    assume "P a b" "P b c"
    then show "P a c" using assms unfolding partial_equiv_def by blast
  qed
  show ?thesis unfolding partial_equiv_def eq using sym trans by blast
qed

lemmas partial_equivs = partial_equiv_conj partial_equiv_eq partial_equiv_d_eq

lemma partial_equiv_Position: "partial_equiv Same_Position"
  unfolding Same_Position_def [abs_def] by (intro partial_equivs)

lemma partial_equiv_Velocity: "partial_equiv Same_Velocity"
  unfolding Same_Velocity_def [abs_def] by (intro partial_equivs)

lemma partial_equiv_Device: "partial_equiv Same_Device"
  unfolding Same_Device_def [abs_def] by (intro partial_equivs)

lemma partial_equiv_Policy: "partial_equiv Same_Policy"
  unfolding Same_Policy_def [abs_def] by (intro partial_equivs)

lemma partial_equiv_Flow: "partial_equiv Same_Flow"
  unfolding Same_Flow_def [abs_def] by (intro partial_equivs)

lemma partial_equiv_Entity: "partial_equiv Same_Entity"
  unfolding Same_Entity_def [abs_def]
  by (intro partial_equivs partial_equiv_vector partial_equiv_Device partial_equiv_Policy
      partial_equiv_on [OF partial_equiv_Position] partial_equiv_on [OF partial_equiv_Velocity])

interpretation entities: change_codec ent_entityId Same_Entity
  using partial_equiv_Entity unfolding partial_equiv_def by unfold_locales blast+

interpretation flows: change_codec flow_flowId Same_Flow
  using partial_equiv_Flow unfolding partial_equiv_def by unfold_locales blast+

section \<open>The tracker and its receiver\<close>

record World =
  w_entities :: "(string, EntityState) cmap"
  w_flows :: "(string, FlowConfig) cmap"

definition empty_world :: World where
  "empty_world = \<lparr>w_entities = [], w_flows = []\<rparr>"

definition apply_delta :: "DeltaState \<Rightarrow> World \<Rightarrow> World" where
  "apply_delta delta w =
     \<lparr>w_entities = patch ent_entityId (entityUpserts delta) (entityRemovals delta) (w_entities w),
      w_flows = patch flow_flowId (flowUpserts delta) (flowRemovals delta) (w_flows w)\<rparr>"

text \<open>A run of updates: the changes returned, skipping the states that were rejected.\<close>

fun updates ::
  "(EntityState list \<times> FlowConfig list) list \<Rightarrow> StateDeltaTracker \<Rightarrow> DeltaState list \<times> StateDeltaTracker" where
  "updates [] tracker = ([], tracker)"
| "updates ((es, fs) # states) tracker =
     (case Update es fs tracker of
        (Inl e, tracker') \<Rightarrow> updates states tracker'
      | (Inr delta, tracker') \<Rightarrow>
          (let (deltas, tracker'') = updates states tracker' in (delta # deltas, tracker'')))"

definition tracker_ok :: "StateDeltaTracker \<Rightarrow> bool" where
  "tracker_ok tracker \<longleftrightarrow> keyed ent_entityId (mEntities tracker) \<and> keyed flow_flowId (mFlows tracker)"

definition in_step :: "World \<Rightarrow> StateDeltaTracker \<Rightarrow> bool" where
  "in_step w tracker \<longleftrightarrow> map_ok (w_entities w) \<and> map_ok (w_flows w) \<and>
     entities.maps_alike (w_entities w) (mEntities tracker) \<and>
     flows.maps_alike (w_flows w) (mFlows tracker)"

lemma Index_keyed: "Index idGetter elems = Inr m \<Longrightarrow> keyed idGetter m"
  unfolding keyed_def using Index_Inr(2,3) by metis

lemma Update_cases:
  "Update es fs tracker =
    (if ids_ok ent_entityId es \<and> ids_ok flow_flowId fs then
       (let ce = projr (Index ent_entityId es); cf = projr (Index flow_flowId fs) in
        (Inr \<lparr>entityUpserts = upserts Same_Entity (mEntities tracker) ce,
              entityRemovals = removals (mEntities tracker) ce,
              flowUpserts = upserts Same_Flow (mFlows tracker) cf,
              flowRemovals = removals (mFlows tracker) cf\<rparr>,
         \<lparr>mEntities = ce, mFlows = cf, mInitialized = True\<rparr>))
     else (Inl bad_state, tracker))"
  using Index_ok [of ent_entityId es] Index_ok [of flow_flowId fs]
    Index_bad [of ent_entityId es] Index_bad [of flow_flowId fs]
  by (cases "ids_ok ent_entityId es"; cases "ids_ok flow_flowId fs") (auto simp: Update_def Let_def)

lemma projr_Index: "ids_ok idGetter elems \<Longrightarrow> Index idGetter elems = Inr (projr (Index idGetter elems))"
  using Index_ok [of idGetter elems] by auto

lemma tracker_ok_Update:
  assumes "Update es fs tracker = (r, tracker')" and "tracker_ok tracker"
  shows "tracker_ok tracker'"
  using assms by (auto simp: Update_cases Let_def tracker_ok_def split: if_splits
      intro: Index_keyed [OF projr_Index])

lemma in_step_Update:
  assumes "in_step w tracker" and "tracker_ok tracker" and "Update es fs tracker = (Inr delta, tracker')"
  shows "in_step (apply_delta delta w) tracker'"
proof -
  let ?ce = "projr (Index ent_entityId es)" and ?cf = "projr (Index flow_flowId fs)"
  from assms(3) have ids: "ids_ok ent_entityId es" "ids_ok flow_flowId fs"
    and d: "delta = \<lparr>entityUpserts = upserts Same_Entity (mEntities tracker) ?ce,
              entityRemovals = removals (mEntities tracker) ?ce,
              flowUpserts = upserts Same_Flow (mFlows tracker) ?cf,
              flowRemovals = removals (mFlows tracker) ?cf\<rparr>"
    and t: "mEntities tracker' = ?ce" "mFlows tracker' = ?cf"
    by (auto simp: Update_cases Let_def split: if_splits)
  have "keyed ent_entityId ?ce" "keyed flow_flowId ?cf"
    using projr_Index [OF ids(1)] projr_Index [OF ids(2)] Index_keyed by metis+
  then show ?thesis
    using assms(1,2) entities.patch_diff flows.patch_diff
    by (simp add: in_step_def apply_delta_def d t map_ok_patch tracker_ok_def keyed_def)
qed

lemma in_step_updates:
  "updates states tracker = (deltas, tracker') \<Longrightarrow> in_step w tracker \<Longrightarrow> tracker_ok tracker \<Longrightarrow>
    in_step (fold apply_delta deltas w) tracker' \<and> tracker_ok tracker'"
proof (induction states tracker arbitrary: deltas w rule: updates.induct)
  case (1 tracker)
  then show ?case by simp
next
  case (2 es fs states tracker)
  obtain r t where u: "Update es fs tracker = (r, t)" by (cases "Update es fs tracker")
  then have ok: "tracker_ok t" using 2 tracker_ok_Update by blast
  show ?case
  proof (cases r)
    case (Inl e)
    then have "t = tracker" using u by (auto simp: Update_cases Let_def split: if_splits)
    then show ?thesis using 2 u Inl by simp
  next
    case (Inr delta)
    obtain ds t' where "updates states t = (ds, t')" by (cases "updates states t")
    then show ?thesis
      using 2 u Inr ok in_step_Update [of w tracker es fs delta t] by auto
  qed
qed

lemma tracker_ok_new: "tracker_ok new_tracker"
  by (simp add: tracker_ok_def new_tracker_def keyed_def)

lemma in_step_new: "in_step empty_world new_tracker"
  by (simp add: in_step_def empty_world_def new_tracker_def entities.maps_alike_refl flows.maps_alike_refl)

section \<open>Properties\<close>

lemma find_projr_Index:
  assumes "ids_ok idGetter elems"
  shows "map_find (projr (Index idGetter elems)) k = Some v \<longleftrightarrow> v \<in> set elems \<and> idGetter v = k"
    and "map_has (projr (Index idGetter elems)) k \<longleftrightarrow> k \<in> idGetter ` set elems"
    and "keyed idGetter (projr (Index idGetter elems))"
  using Index_Inr(3) [OF projr_Index [OF assms]] Index_keyed [OF projr_Index [OF assms]]
  by (auto simp: map_has_def)

context change_codec
begin

lemma maps_alike_Index:
  assumes "maps_alike m (projr (Index idGetter elems))" and "ids_ok idGetter elems"
  shows "map_has m k \<longleftrightarrow> k \<in> idGetter ` set elems"
    and "v \<in> set elems \<Longrightarrow> \<exists>w. map_find m (idGetter v) = Some w \<and> (w = v \<or> same w v)"
proof -
  have rel: "rel_option alike (map_find m l) (map_find (projr (Index idGetter elems)) l)" for l
    using assms(1) by (simp add: maps_alike_def)
  have "map_has m k \<longleftrightarrow> map_has (projr (Index idGetter elems)) k"
    using rel [of k] by (cases "map_find m k"; cases "map_find (projr (Index idGetter elems)) k")
      (auto simp: map_has_def)
  then show "map_has m k \<longleftrightarrow> k \<in> idGetter ` set elems"
    using find_projr_Index(2) [OF assms(2)] by simp
  assume "v \<in> set elems"
  then have "map_find (projr (Index idGetter elems)) (idGetter v) = Some v"
    using find_projr_Index(1) [OF assms(2)] by simp
  then show "\<exists>w. map_find m (idGetter v) = Some w \<and> (w = v \<or> same w v)"
    using rel [of "idGetter v"] by (simp add: option_rel_Some2 alike_def)
qed

end

lemma Update_Inr:
  assumes "Update es fs tracker = (Inr delta, tracker')"
  shows "ids_ok ent_entityId es" and "ids_ok flow_flowId fs"
    and "mEntities tracker' = projr (Index ent_entityId es)"
    and "mFlows tracker' = projr (Index flow_flowId fs)"
    and "mInitialized tracker'"
    and "entityUpserts delta = upserts Same_Entity (mEntities tracker) (projr (Index ent_entityId es))"
    and "entityRemovals delta = removals (mEntities tracker) (projr (Index ent_entityId es))"
    and "flowUpserts delta = upserts Same_Flow (mFlows tracker) (projr (Index flow_flowId fs))"
    and "flowRemovals delta = removals (mFlows tracker) (projr (Index flow_flowId fs))"
  using assms by (auto simp: Update_cases Let_def split: if_splits)

lemma Update_ok:
  assumes "ids_ok ent_entityId es" and "ids_ok flow_flowId fs"
  shows "\<exists>delta tracker'. Update es fs tracker = (Inr delta, tracker')"
  using assms by (simp add: Update_cases Let_def)

lemma updates_append:
  "updates (states @ [(es, fs)]) tracker =
    (let (deltas, t) = updates states tracker in
     case Update es fs t of (Inl e, t') \<Rightarrow> (deltas, t') | (Inr delta, t') \<Rightarrow> (deltas @ [delta], t'))"
proof (induction states tracker rule: updates.induct)
  case (1 tracker)
  then show ?case by (simp split: prod.split sum.split)
next
  case (2 es' fs' states tracker)
  obtain r t where "Update es' fs' tracker = (r, t)" by (cases "Update es' fs' tracker")
  with 2 show ?case
    by (cases r) (auto split: prod.splits sum.splits)
qed

lemma list_empty_iff: "xs = [] \<longleftrightarrow> (\<forall>x. x \<notin> set xs)"
  by (cases xs) auto

lemma removals_self: "map_ok m \<Longrightarrow> removals m m = []"
  by (simp add: list_empty_iff set_removals)

lemma upserts_self:
  "map_ok m \<Longrightarrow> upserts same m m = [] \<longleftrightarrow> (\<forall>k v. map_find m k = Some v \<longrightarrow> same v v)"
  by (auto simp: list_empty_iff set_upserts)

lemma Same_Flow_eq: "Same_Flow a b \<longleftrightarrow> a = b"
  by (auto simp: Same_Flow_def)

text \<open>
  C7. The stream of changes reconstructs the state: a receiver that starts empty and applies
  every change list the tracker returned holds, after the last submitted state, exactly the
  identifiers of that state, every flow as submitted, and every entity as submitted or as
  one the comparison equates with it. States rejected on the way make no difference.
\<close>

theorem delta_stream_reconstructs:
  assumes "updates (states @ [(es, fs)]) new_tracker = (deltas, tracker)"
    and "ids_ok ent_entityId es" and "ids_ok flow_flowId fs"
  shows "let w = fold apply_delta deltas empty_world in
    (\<forall>k. map_has (w_entities w) k \<longleftrightarrow> k \<in> ent_entityId ` set es) \<and>
    (\<forall>e \<in> set es. \<exists>b. map_find (w_entities w) (ent_entityId e) = Some b \<and> (b = e \<or> Same_Entity b e)) \<and>
    (\<forall>k. map_has (w_flows w) k \<longleftrightarrow> k \<in> flow_flowId ` set fs) \<and>
    (\<forall>f \<in> set fs. map_find (w_flows w) (flow_flowId f) = Some f)"
proof -
  let ?w = "fold apply_delta deltas empty_world"
  have w: "in_step ?w tracker"
    using in_step_updates [OF assms(1) in_step_new tracker_ok_new] by blast
  obtain ds t where "updates states new_tracker = (ds, t)" by (cases "updates states new_tracker")
  moreover obtain delta t' where "Update es fs t = (Inr delta, t')"
    using Update_ok assms(2,3) by blast
  ultimately have "mEntities tracker = projr (Index ent_entityId es)" "mFlows tracker = projr (Index flow_flowId fs)"
    using assms(1) Update_Inr(3,4) by (auto simp: updates_append)
  with w have "entities.maps_alike (w_entities ?w) (projr (Index ent_entityId es))"
    "flows.maps_alike (w_flows ?w) (projr (Index flow_flowId fs))"
    by (simp_all add: in_step_def)
  then show ?thesis
    using entities.maps_alike_Index [OF _ assms(2)] flows.maps_alike_Index [OF _ assms(3)]
    by (simp add: Let_def Same_Flow_eq)
qed

text \<open>
  C19. A change list is minimal and ordered: it upserts exactly the entities and flows of the
  new state that are new or differ from the baseline, removes exactly the identifiers that
  are gone, and each of its four lists is in strictly increasing order of identifiers.
\<close>

theorem delta_minimal:
  assumes "tracker_ok tracker" and "Update es fs tracker = (Inr delta, tracker')"
  shows "(\<forall>e. e \<in> set (entityUpserts delta) \<longleftrightarrow> e \<in> set es \<and>
      (\<forall>b. map_find (mEntities tracker) (ent_entityId e) = Some b \<longrightarrow> \<not> Same_Entity b e)) \<and>
    (\<forall>k. k \<in> set (entityRemovals delta) \<longleftrightarrow> map_has (mEntities tracker) k \<and> k \<notin> ent_entityId ` set es) \<and>
    (\<forall>f. f \<in> set (flowUpserts delta) \<longleftrightarrow> f \<in> set fs \<and> map_find (mFlows tracker) (flow_flowId f) \<noteq> Some f) \<and>
    (\<forall>k. k \<in> set (flowRemovals delta) \<longleftrightarrow> map_has (mFlows tracker) k \<and> k \<notin> flow_flowId ` set fs) \<and>
    sorted_wrt (<) (map ent_entityId (entityUpserts delta)) \<and> sorted_wrt (<) (entityRemovals delta) \<and>
    sorted_wrt (<) (map flow_flowId (flowUpserts delta)) \<and> sorted_wrt (<) (flowRemovals delta)"
proof -
  note u = Update_Inr [OF assms(2)]
  note es = find_projr_Index [OF u(1)] and fs = find_projr_Index [OF u(2)]
  have "map_ok (mEntities tracker)" "map_ok (mFlows tracker)"
    using assms(1) by (simp_all add: tracker_ok_def keyed_def)
  moreover have "map_ok (projr (Index ent_entityId es))" "map_ok (projr (Index flow_flowId fs))"
    using es(3) fs(3) by (simp_all add: keyed_def)
  ultimately show ?thesis
    using upserts_ids [OF es(3)] upserts_ids [OF fs(3)]
    by (auto simp: u set_upserts set_removals es(1,2) fs(1,2) sorted_removals Same_Flow_eq)
qed

text \<open>
  Submitting a state a second time changes nothing and returns an empty change list,
  unless an entity differs from itself because one of its doubles is NaN; then the entity is
  sent again every time.
\<close>

lemma resubmission_is_empty:
  assumes "Update es fs tracker = (Inr delta, tracker')" and "Update es fs tracker' = (r, tracker'')"
  shows "tracker'' = tracker' \<and> (\<exists>again. r = Inr again \<and> entityRemovals again = [] \<and> flowUpserts again = [] \<and>
    flowRemovals again = [] \<and> (Empty again \<longleftrightarrow> (\<forall>e \<in> set es. Same_Entity e e)))"
proof -
  note u = Update_Inr [OF assms(1)]
  note es = find_projr_Index [OF u(1)] and fs = find_projr_Index [OF u(2)]
  obtain again where again: "r = Inr again" using Update_ok [OF u(1,2)] assms(2) by (metis prod.inject)
  note u2 = Update_Inr [OF assms(2) [unfolded again]]
  have "map_ok (projr (Index ent_entityId es))" "map_ok (projr (Index flow_flowId fs))"
    using es(3) fs(3) by (simp_all add: keyed_def)
  then have "entityRemovals again = []" "flowUpserts again = []" "flowRemovals again = []"
    "entityUpserts again = [] \<longleftrightarrow> (\<forall>e \<in> set es. Same_Entity e e)"
    by (auto simp: u2(6-9) u(3,4) removals_self upserts_self es(1) Same_Flow_eq)
  moreover have "tracker'' = tracker'" using u u2 by simp
  ultimately show ?thesis by (auto simp: again Empty_def)
qed

text \<open>
  C20. A state with an empty or repeated identifier is rejected with the same exception by both
  operations. A rejected \<open>Update\<close> leaves the tracker unchanged. A \<open>Reset\<close> that is rejected
  for its flows has already replaced the stored entities.
\<close>

theorem rejected_states:
  "(\<not> (ids_ok ent_entityId es \<and> ids_ok flow_flowId fs) \<longrightarrow>
     Update es fs tracker = (Inl bad_state, tracker)) \<and>
   Reset es fs tracker =
     (if \<not> ids_ok ent_entityId es then (Inl bad_state, tracker)
      else if \<not> ids_ok flow_flowId fs
      then (Inl bad_state, tracker\<lparr>mEntities := projr (Index ent_entityId es)\<rparr>)
      else (Inr (), \<lparr>mEntities = projr (Index ent_entityId es), mFlows = projr (Index flow_flowId fs),
        mInitialized = True\<rparr>))"
  using projr_Index [of ent_entityId es] projr_Index [of flow_flowId fs]
    Index_bad [of ent_entityId es] Index_bad [of flow_flowId fs]
  by (auto simp: Update_cases Reset_def Let_def split: sum.split)

text \<open>
  After such a rejected \<open>Reset\<close> the next change list omits entities that were never
  sent: with the same entities it has no entity change at all.
\<close>

lemma rejected_reset_loses_entities:
  assumes "ids_ok ent_entityId es" and "\<not> ids_ok flow_flowId bad" and "ids_ok flow_flowId fs"
    and "\<forall>e \<in> set es. Same_Entity e e"
  shows "\<exists>t t' delta. Reset es bad tracker = (Inl bad_state, t) \<and> Update es fs t = (Inr delta, t') \<and>
    entityUpserts delta = [] \<and> entityRemovals delta = []"
proof -
  note es = find_projr_Index [OF assms(1)]
  have ok: "map_ok (projr (Index ent_entityId es))" using es(3) by (simp add: keyed_def)
  let ?t = "tracker\<lparr>mEntities := projr (Index ent_entityId es)\<rparr>"
  have "Reset es bad tracker = (Inl bad_state, ?t)"
    using projr_Index [OF assms(1)] Index_bad [OF assms(2)] by (auto simp: Reset_def split: sum.split)
  moreover obtain delta t' where "Update es fs ?t = (Inr delta, t')"
    using Update_ok assms(1,3) by blast
  moreover from this have "entityUpserts delta = []" "entityRemovals delta = []"
    using assms(4) ok by (auto simp: Update_Inr removals_self upserts_self es(1))
  ultimately show ?thesis by auto
qed

section \<open>The properties on concrete states\<close>

definition one_entity :: "EntityState list" where
  "one_entity = [empty_entity\<lparr>ent_entityId := ''a''\<rparr>]"

definition one_flow :: "FlowConfig list" where
  "one_flow = [empty_flow\<lparr>flow_flowId := ''f''\<rparr>]"

lemma one_ids: "ids_ok ent_entityId one_entity" "ids_ok flow_flowId one_flow" "ids_ok flow_flowId []"
  "\<not> ids_ok flow_flowId [empty_flow]"
  by (simp_all add: ids_ok_def one_entity_def one_flow_def empty_flow_def)

lemma one_entity_same: "\<forall>e \<in> set one_entity. Same_Entity e e"
  by (simp add: one_entity_def empty_entity_def Same_Entity_def Same_Position_def Same_Velocity_def SameVector_def)

theorem delta_stream_reconstructs_witness:
  "\<exists>deltas tracker. updates [([], one_flow), (one_entity, [empty_flow]), (one_entity, [])] new_tracker = (deltas, tracker) \<and>
    map_has (w_entities (fold apply_delta deltas empty_world)) ''a'' \<and>
    \<not> map_has (w_flows (fold apply_delta deltas empty_world)) ''f''"
proof -
  let ?states = "[([], one_flow), (one_entity, [empty_flow])]"
  obtain ds t where u: "updates (?states @ [(one_entity, [])]) new_tracker = (ds, t)" by fastforce
  have "ent_entityId ` set one_entity = {''a''}" by (simp add: one_entity_def)
  then have "map_has (w_entities (fold apply_delta ds empty_world)) ''a''"
    "\<not> map_has (w_flows (fold apply_delta ds empty_world)) ''f''"
    using delta_stream_reconstructs [OF u one_ids(1,3)] by (simp_all add: Let_def)
  with u show ?thesis unfolding append_Cons append_Nil by blast
qed

theorem delta_minimal_witness:
  "\<exists>delta tracker. Update one_entity one_flow new_tracker = (Inr delta, tracker) \<and>
    set (entityUpserts delta) = set one_entity \<and> set (flowUpserts delta) = set one_flow"
proof -
  obtain delta t where u: "Update one_entity one_flow new_tracker = (Inr delta, t)"
    using Update_ok [OF one_ids(1,2)] by blast
  from delta_minimal [OF tracker_ok_new u] have
    "\<forall>e. e \<in> set (entityUpserts delta) \<longleftrightarrow> e \<in> set one_entity"
    "\<forall>f. f \<in> set (flowUpserts delta) \<longleftrightarrow> f \<in> set one_flow"
    by (simp_all add: new_tracker_def)
  with u show ?thesis by (auto simp: set_eq_iff)
qed

theorem rejected_states_witness:
  "Update one_entity [empty_flow] new_tracker = (Inl bad_state, new_tracker)"
  using rejected_states [of one_entity "[empty_flow]" new_tracker] one_ids by blast

end
