(* ===== verification/Controller.thy ===== *)
theory Controller
  imports TcpStream MessageGate EffectGate DeltaTracker
begin

text \<open>
  \<open>src/windows_adapter/AfsimBridgeController.hpp\<close> and \<open>.cpp\<close>: the controller that joins the
  client, the delta tracker and the two gates. An operation that may throw returns its result,
  or the exception, with the state it leaves. The effect sink and the error handler belong to
  the simulation: the sink is a function of its own state that may throw, and the handler is
  known by the calls made to it.
\<close>

section \<open>State\<close>

type_synonym effect_key = "string \<times> string \<times> string \<times> string"

datatype StateSubmitResult = InitialQueued | DeltaQueued | ResyncQueued | NoChange

record Controller =
  mClient :: Client
  mDeltaTracker :: StateDeltaTracker
  mMessageGate :: MessageTransportGate
  mGate :: NetworkEffectGate
  mPendingEffects :: "(effect_key, EffectDecision) cmap"
  mEffectErrorHandler :: bool

definition EffectKey :: "EffectDecision \<Rightarrow> effect_key" where
  "EffectKey d = (eff_entityId d, eff_subsystemType d, eff_subsystemId d, eff_peerEntityId d)"

definition new_controller :: "TcpClientConfig \<Rightarrow> Controller result" where
  "new_controller config =
     rbind (new_client config) (\<lambda>client.
       Inr \<lparr>mClient = SetLineHandler True client, mDeltaTracker = new_tracker,
         mMessageGate = new_message_gate, mGate = new_effect_gate, mPendingEffects = [],
         mEffectErrorHandler = False\<rparr>)"

definition ControllerStart :: "Controller \<Rightarrow> Controller" where
  "ControllerStart c = c\<lparr>mClient := Start (mClient c)\<rparr>"

definition ControllerStop :: "Controller \<Rightarrow> Controller" where
  "ControllerStop c = c\<lparr>mClient := Stop_request (mClient c)\<rparr>"

definition SetEffectErrorHandler :: "bool \<Rightarrow> Controller \<Rightarrow> Controller" where
  "SetEffectErrorHandler handler c = c\<lparr>mEffectErrorHandler := handler\<rparr>"

section \<open>Submitting states\<close>

definition SubmitInitial ::
  "string \<Rightarrow> u64 \<Rightarrow> EntityState list \<Rightarrow> FlowConfig list \<Rightarrow> Controller \<Rightarrow> unit result \<times> Controller" where
  "SubmitInitial requestId timestampMs entities flows c =
     (let (r, tracker) = Reset entities flows (mDeltaTracker c); c = c\<lparr>mDeltaTracker := tracker\<rparr> in
      case r of
        Inl e \<Rightarrow> (Inl e, c)
      | Inr _ \<Rightarrow>
          (Inr (), c\<lparr>mClient := QueueInitial (BuildInitMessage requestId timestampMs entities flows)
             (mClient c)\<rparr>))"

definition SubmitDelta ::
  "TcpClientConfig \<Rightarrow> string \<Rightarrow> u64 \<Rightarrow> DeltaState \<Rightarrow> EntityState list \<Rightarrow> FlowConfig list \<Rightarrow> Controller \<Rightarrow>
     bool result \<times> Controller" where
  "SubmitDelta config requestId timestampMs delta currentEntities currentFlows c =
     (let (r, tracker) = Reset currentEntities currentFlows (mDeltaTracker c);
          c = c\<lparr>mDeltaTracker := tracker\<rparr> in
      case r of
        Inl e \<Rightarrow> (Inl e, c)
      | Inr _ \<Rightarrow>
          (let (queued, client) = QueueDelta config (BuildDeltaMessage requestId timestampMs delta)
                 (BuildInitMessage (requestId @ ''-resync'') timestampMs currentEntities currentFlows)
                 (mClient c) in
           (Inr queued, c\<lparr>mClient := client\<rparr>)))"

definition SubmitCurrentState ::
  "TcpClientConfig \<Rightarrow> string \<Rightarrow> u64 \<Rightarrow> EntityState list \<Rightarrow> FlowConfig list \<Rightarrow> Controller \<Rightarrow>
     StateSubmitResult result \<times> Controller" where
  "SubmitCurrentState config requestId timestampMs entities flows c =
     (if \<not> Initialized (mDeltaTracker c) then
        (case SubmitInitial requestId timestampMs entities flows c of
           (Inl e, c) \<Rightarrow> (Inl e, c)
         | (Inr _, c) \<Rightarrow> (Inr InitialQueued, c))
      else
        (let (r, tracker) = Update entities flows (mDeltaTracker c); c = c\<lparr>mDeltaTracker := tracker\<rparr> in
         case r of
           Inl e \<Rightarrow> (Inl e, c)
         | Inr delta \<Rightarrow>
             (if Empty delta then (Inr NoChange, c)
              else
                (case SubmitDelta config requestId timestampMs delta entities flows c of
                   (Inl e, c) \<Rightarrow> (Inl e, c)
                 | (Inr queued, c) \<Rightarrow> (Inr (if queued then DeltaQueued else ResyncQueued), c)))))"

section \<open>Metrics and effects\<close>

definition store_effects ::
  "EffectDecision list \<Rightarrow> (effect_key, EffectDecision) cmap \<Rightarrow> (effect_key, EffectDecision) cmap" where
  "store_effects decisions m = fold (\<lambda>d. map_put (EffectKey d) d) decisions m"

definition OnJsonLine :: "string \<Rightarrow> Controller \<Rightarrow> unit result \<times> Controller" where
  "OnJsonLine line c =
     (case UpdateFromMetricsJson line (mMessageGate c) of
        Inl e \<Rightarrow> (Inl e, c)
      | Inr (_, messageGate) \<Rightarrow>
          (let c = c\<lparr>mMessageGate := messageGate\<rparr> in
           case UpdateEffects line (mGate c) of
             Inl e \<Rightarrow> (Inl e, c)
           | Inr (decisions, gate) \<Rightarrow>
               (let c = c\<lparr>mGate := gate\<rparr> in
                if decisions = [] then (Inr (), c)
                else (Inr (), c\<lparr>mPendingEffects := store_effects decisions (mPendingEffects c)\<rparr>))))"

text \<open>The lines of one read, each handled on its own; an exception ends only its line.\<close>

definition handle_lines :: "string list \<Rightarrow> Controller \<Rightarrow> Controller" where
  "handle_lines ls c = fold (\<lambda>l c. snd (OnJsonLine l c)) ls c"

definition what :: "exn \<Rightarrow> string" where
  "what e = (case e of Runtime_Error s \<Rightarrow> s | Invalid_Argument s \<Rightarrow> s | Out_Of_Range s \<Rightarrow> s
     | Unknown_Exception \<Rightarrow> ''unknown exception'')"

text \<open>The calls made to the error handler; what it throws is dropped.\<close>

definition ReportEffectError :: "bool \<Rightarrow> EffectDecision \<Rightarrow> string \<Rightarrow> (EffectDecision \<times> string) list" where
  "ReportEffectError hasHandler decision message = (if hasHandler then [(decision, message)] else [])"

text \<open>The loop over the pending effects: the sink's state, the count and the error reports.\<close>

fun apply_loop ::
  "(EffectDecision \<Rightarrow> 'k \<Rightarrow> unit result \<times> 'k) \<Rightarrow> bool \<Rightarrow> (effect_key, EffectDecision) cmap \<Rightarrow> 'k \<Rightarrow> nat \<Rightarrow>
     'k \<times> nat \<times> (EffectDecision \<times> string) list" where
  "apply_loop sink hasHandler [] s applied = (s, applied, [])"
| "apply_loop sink hasHandler ((k, decision) # pending) s applied =
     (case sink decision s of
        (Inr _, s') \<Rightarrow> apply_loop sink hasHandler pending s' (applied + 1)
      | (Inl e, s') \<Rightarrow>
          (let (s'', n, reports) = apply_loop sink hasHandler pending s' applied in
           (s'', n, ReportEffectError hasHandler decision (what e) @ reports)))"

definition ApplyPendingEffects ::
  "(EffectDecision \<Rightarrow> 'k \<Rightarrow> unit result \<times> 'k) \<Rightarrow> 'k \<Rightarrow> Controller \<Rightarrow>
     (nat \<times> 'k \<times> (EffectDecision \<times> string) list) \<times> Controller" where
  "ApplyPendingEffects sink s c =
     (let (s', applied, reports) = apply_loop sink (mEffectErrorHandler c) (mPendingEffects c) s 0 in
      ((applied, s', reports), c\<lparr>mPendingEffects := []\<rparr>))"

definition ControllerGetState :: "Controller \<Rightarrow> string \<Rightarrow> string \<Rightarrow> EffectState" where
  "ControllerGetState c = GetState (mGate c)"

definition DecideMessage :: "Controller \<Rightarrow> string \<Rightarrow> string \<Rightarrow> u64 \<Rightarrow> MessageTransportDecision" where
  "DecideMessage c = Decide (mMessageGate c)"

definition LatestMetricsRevision :: "Controller \<Rightarrow> u64" where
  "LatestMetricsRevision c = LatestRevision (mMessageGate c)"

definition ControllerIsConnected :: "Controller \<Rightarrow> bool" where
  "ControllerIsConnected c = IsConnected (mClient c)"

definition PendingNetworkMessages :: "Controller \<Rightarrow> nat" where
  "PendingNetworkMessages c = PendingCount (mClient c)"

section \<open>Effects: newest decision per key, failures isolated\<close>

definition newest :: "effect_key \<Rightarrow> EffectDecision list \<Rightarrow> EffectDecision option" where
  "newest k decisions = find (\<lambda>d. EffectKey d = k) (rev decisions)"

lemma find_store_effects:
  "map_ok m \<Longrightarrow> map_ok (store_effects decisions m) \<and> map_find (store_effects decisions m) k =
    (case newest k decisions of Some d \<Rightarrow> Some d | None \<Rightarrow> map_find m k)"
proof (induction decisions rule: rev_induct)
  case Nil
  then show ?case by (simp add: store_effects_def newest_def)
next
  case (snoc d decisions)
  then show ?case by (auto simp: store_effects_def newest_def map_ok_put map_find_put)
qed

text \<open>
  What waits, told by the fields of the decisions and not by their keys: every decision waits under
  its own key.
\<close>

definition pending_ok :: "(effect_key, EffectDecision) cmap \<Rightarrow> bool" where
  "pending_ok m \<longleftrightarrow> map_ok m \<and> list_all (\<lambda>(k, d). k = EffectKey d) m"

definition decides_on :: "string \<Rightarrow> string \<Rightarrow> string \<Rightarrow> string \<Rightarrow> EffectDecision \<Rightarrow> bool" where
  "decides_on entity type subsystem peer d \<longleftrightarrow>
     eff_entityId d = entity \<and> eff_subsystemType d = type \<and> eff_subsystemId d = subsystem \<and> eff_peerEntityId d = peer"

lemma EffectKey_decides_on: "EffectKey d = (entity, type, subsystem, peer) \<longleftrightarrow> decides_on entity type subsystem peer d"
  "(entity, type, subsystem, peer) = EffectKey d \<longleftrightarrow> decides_on entity type subsystem peer d"
  by (auto simp: EffectKey_def decides_on_def)

definition waiting_effects :: "Controller \<Rightarrow> EffectDecision list" where
  "waiting_effects c = map snd (mPendingEffects c)"

lemma distinct_length_le_one: "distinct xs \<Longrightarrow> (\<And>x y. x \<in> set xs \<Longrightarrow> y \<in> set xs \<Longrightarrow> x = y) \<Longrightarrow> length xs \<le> 1"
  by (metis One_nat_def card_le_Suc0_iff_eq distinct_card finite_set)

lemma find_waiting:
  "list_all (\<lambda>(k, d). k = EffectKey d) m \<Longrightarrow>
    find (decides_on entity type subsystem peer) (map snd m) = map_find m (entity, type, subsystem, peer)"
proof (induction m)
  case Nil
  then show ?case by (simp add: map_find_def)
next
  case (Cons x m)
  then show ?case by (cases x) (simp add: map_find_def EffectKey_decides_on)
qed

lemma newest_decides_on:
  "newest (entity, type, subsystem, peer) decisions = find (decides_on entity type subsystem peer) (rev decisions)"
  by (simp add: newest_def EffectKey_decides_on)

lemma pending_ok_store:
  assumes "pending_ok m"
  shows "pending_ok (store_effects decisions m)"
proof -
  have "list_all (\<lambda>(k, d). k = EffectKey d) (store_effects decisions m)"
  proof -
    have "list_all (\<lambda>(k, d). k = EffectKey d) (map_put (EffectKey d) d n)"
      if "list_all (\<lambda>(k, d). k = EffectKey d) n" for d n
      using that by (induction n) auto
    then show ?thesis using assms
      unfolding store_effects_def pending_ok_def by (induction decisions arbitrary: m rule: rev_induct) auto
  qed
  then show ?thesis using assms find_store_effects by (simp add: pending_ok_def)
qed

lemma find_store_waiting:
  assumes "pending_ok m"
  shows "find (decides_on entity type subsystem peer) (map snd (store_effects decisions m)) =
    (case find (decides_on entity type subsystem peer) (rev decisions) of
       Some d \<Rightarrow> Some d | None \<Rightarrow> find (decides_on entity type subsystem peer) (map snd m))"
  using find_waiting [of "store_effects decisions m"] find_waiting [of m] pending_ok_store [OF assms, of decisions]
    find_store_effects [of m decisions] assms
  by (simp add: pending_ok_def newest_decides_on split: option.split)

lemma pending_ok_OnJsonLine:
  "pending_ok (mPendingEffects c) \<Longrightarrow> pending_ok (mPendingEffects (snd (OnJsonLine line c)))"
  using pending_ok_store [of "mPendingEffects c"]
  by (auto simp: OnJsonLine_def UpdateEffects_def Let_def split: sum.split option.splits)

lemma pending_ok_handle_lines:
  "pending_ok (mPendingEffects c) \<Longrightarrow> pending_ok (mPendingEffects (handle_lines ls c))"
  unfolding handle_lines_def by (induction ls arbitrary: c) (simp_all add: pending_ok_OnJsonLine)

text \<open>
  C30. A metrics line that neither gate rejects and that is new to the effect gate leaves, for
  every entity, subsystem type, subsystem and peer, its last decision about them waiting to be
  applied, and what waited before where it has none: decisions about different peers or subsystems
  never replace each other. A line that is not new, or is none of metrics, changes nothing that waits. A
  line that makes either gate throw leaves the waiting effects and the effect gate as they
  were. There is never more than one decision waiting about the same four.
\<close>

theorem OnJsonLine_effects:
  assumes "pending_ok (mPendingEffects c)" and "OnJsonLine line c = (r, c')"
  shows "(r = Inr () \<longrightarrow> read_decisions line = Inr (Some (revision, decisions)) \<longrightarrow>
      (\<forall>entity type subsystem peer.
        find (decides_on entity type subsystem peer) (waiting_effects c') =
        (case find (decides_on entity type subsystem peer) (if mEffectRevision (mGate c) < revision then rev decisions else []) of
           Some d \<Rightarrow> Some d | None \<Rightarrow> find (decides_on entity type subsystem peer) (waiting_effects c)))) \<and>
    (read_decisions line = Inr None \<longrightarrow> waiting_effects c' = waiting_effects c) \<and>
    (r \<noteq> Inr () \<longrightarrow> waiting_effects c' = waiting_effects c \<and> mGate c' = mGate c) \<and>
    pending_ok (mPendingEffects c') \<and>
    (\<forall>entity type subsystem peer. length (filter (decides_on entity type subsystem peer) (waiting_effects c')) \<le> 1)"
proof -
  have ok: "pending_ok (mPendingEffects c')"
    using pending_ok_OnJsonLine [OF assms(1), of line] assms(2) by simp
  have "length (filter (decides_on entity type subsystem peer) (map snd m)) \<le> 1" if "pending_ok m"
    for entity type subsystem peer and m :: "(effect_key, EffectDecision) cmap"
  proof -
    have "distinct (map fst m)" using that cmap.distinct_keys [of m] by (simp add: pending_ok_def)
    moreover have "map fst m = map EffectKey (map snd m)"
      using that by (simp add: pending_ok_def list_all_iff case_prod_beta)
    ultimately have "inj_on EffectKey (set (map snd m))" "distinct (map snd m)" by (simp_all only: distinct_map)
    moreover have "EffectKey x = EffectKey y" if "decides_on entity type subsystem peer x" "decides_on entity type subsystem peer y" for x y
      using that by (simp add: decides_on_def EffectKey_def)
    ultimately show ?thesis
      by (intro distinct_length_le_one) (simp_all only: distinct_filter set_filter mem_Collect_eq inj_on_def)
  qed
  then have one: "\<forall>entity type subsystem peer. length (filter (decides_on entity type subsystem peer) (waiting_effects c')) \<le> 1"
    using ok by (simp add: waiting_effects_def)
  show ?thesis
    using assms find_store_waiting [OF assms(1)] ok one
    by (auto simp: OnJsonLine_def UpdateEffects_def Let_def waiting_effects_def not_less [symmetric] split: sum.splits option.splits if_splits)
qed

definition sink_run :: "(EffectDecision \<Rightarrow> 'k \<Rightarrow> unit result \<times> 'k) \<Rightarrow> EffectDecision list \<Rightarrow> 'k \<Rightarrow> 'k" where
  "sink_run sink ds s = fold (\<lambda>d s. snd (sink d s)) ds s"

fun failures :: "(EffectDecision \<Rightarrow> 'k \<Rightarrow> unit result \<times> 'k) \<Rightarrow> EffectDecision list \<Rightarrow> 'k \<Rightarrow> (EffectDecision \<times> string) list" where
  "failures sink [] s = []"
| "failures sink (d # ds) s =
     (case sink d s of (Inr _, s') \<Rightarrow> failures sink ds s' | (Inl e, s') \<Rightarrow> (d, what e) # failures sink ds s')"


lemma apply_loop_spec:
  "apply_loop sink hasHandler m s n =
    (sink_run sink (map snd m) s, n + length m - length (failures sink (map snd m) s),
     if hasHandler then failures sink (map snd m) s else [])"
  and failures_length: "length (failures sink (map snd m) s) \<le> length m"
proof (induction m arbitrary: s n)
  case Nil
  { case 1 show ?case by (simp add: sink_run_def) }
  { case 2 show ?case by simp }
next
  case (Cons e m)
  obtain k d where e: "e = (k, d)" by (cases e)
  { case 1
    obtain r s' where r: "sink d s = (r, s')" by (cases "sink d s")
    show ?case using Cons.IH(1) [of s' n] Cons.IH(1) [of s' "n + 1"] Cons.IH(2) [of s']
      by (cases r) (simp_all add: e r sink_run_def ReportEffectError_def Suc_diff_le) }
  { case 2
    obtain r s' where r: "sink d s = (r, s')" by (cases "sink d s")
    show ?case using Cons.IH(2) [of s'] by (cases r) (simp_all add: e r le_SucI) }
qed

text \<open>
  The interface \<open>IAfsimEffectSink\<close> of \<open>AfsimBridgeController.hpp\<close>. A sink that keeps its promise
  to accept every decision, given as what it does to its own state, has all of them applied.
\<close>

locale effect_sink =
  fixes sink :: "EffectDecision \<Rightarrow> 'k \<Rightarrow> unit result \<times> 'k" and effect_of :: "EffectDecision \<Rightarrow> 'k \<Rightarrow> 'k"
  assumes sink_accepts: "sink d s = (Inr (), effect_of d s)"
begin

lemma no_failures: "failures sink ds s = []"
  by (induction ds arbitrary: s) (simp_all add: sink_accepts)

lemma sink_run_effects: "sink_run sink ds s = fold effect_of ds s"
  by (simp add: sink_run_def sink_accepts)

lemma ApplyPendingEffects_all:
  "ApplyPendingEffects sink s c =
    ((length (mPendingEffects c), fold effect_of (map snd (mPendingEffects c)) s, []), c\<lparr>mPendingEffects := []\<rparr>)"
  by (simp add: ApplyPendingEffects_def apply_loop_spec no_failures sink_run_effects)

end

text \<open>
  C31. Applying the pending effects calls the sink once for every waiting decision, in key
  order, whatever it throws: the count returned and the failures add up to all of them, every
  failure is reported with its text when there is a handler, and nothing waits afterwards.
\<close>

theorem effects_all_applied:
  assumes "ApplyPendingEffects sink s c = ((applied, s', reports), c')"
  shows "let ds = map snd (mPendingEffects c) in
    s' = sink_run sink ds s \<and> applied + length (failures sink ds s) = length ds \<and>
    reports = (if mEffectErrorHandler c then failures sink ds s else []) \<and> mPendingEffects c' = []"
  using assms failures_length [of sink "mPendingEffects c" s]
  by (auto simp: ApplyPendingEffects_def apply_loop_spec Let_def)

definition effects_controller :: Controller where
  "effects_controller =
     (projr (new_controller small_config))\<lparr>mEffectErrorHandler := True,
       mPendingEffects := store_effects [sample_decision, sample_decision\<lparr>eff_entityId := ''g''\<rparr>] []\<rparr>"

text \<open>A sink that rejects entity \<open>e\<close> and counts its calls.\<close>

definition counting_sink :: "EffectDecision \<Rightarrow> nat \<Rightarrow> unit result \<times> nat" where
  "counting_sink d n = (if eff_entityId d = ''e'' then Inl (Runtime_Error ''no'') else Inr (), n + 1)"

theorem effects_all_applied_witness:
  "fst (fst (ApplyPendingEffects counting_sink 0 effects_controller)) = 1 \<and>
   fst (snd (fst (ApplyPendingEffects counting_sink 0 effects_controller))) = 2 \<and>
   snd (snd (fst (ApplyPendingEffects counting_sink 0 effects_controller))) = [(sample_decision, ''no'')]"
proof -
  have e: "mPendingEffects effects_controller =
      [(EffectKey sample_decision, sample_decision),
       (EffectKey (sample_decision\<lparr>eff_entityId := ''g''\<rparr>), sample_decision\<lparr>eff_entityId := ''g''\<rparr>)]"
    "mEffectErrorHandler effects_controller"
    by (simp_all add: effects_controller_def store_effects_def EffectKey_def sample_decision_def)
  obtain n s' reports c' where a: "ApplyPendingEffects counting_sink 0 effects_controller = ((n, s', reports), c')"
    by (metis prod_cases3 surj_pair)
  show ?thesis
    using effects_all_applied [OF a] e
    by (simp add: a Let_def sink_run_def counting_sink_def sample_decision_def what_def)
qed

text \<open>A line with decisions about two peers of one subsystem, where one about the first peer waits.\<close>

definition two_peers_line :: string where
  "two_peers_line =
     ''{\"message_type\":\"ns3_metrics\",\"revision\":3,\"links\":[],\"metrics\":[],\"effects\":[''
     @ ''{\"entity_id\":\"e\",\"subsystem_id\":\"radar\",\"subsystem_type\":\"sensor\",''
     @ ''\"peer_entity_id\":\"f\",\"state\":\"AVAILABLE\"},''
     @ ''{\"entity_id\":\"e\",\"subsystem_id\":\"radar\",\"subsystem_type\":\"sensor\",''
     @ ''\"peer_entity_id\":\"h\",\"state\":\"BLOCKED\"}]}''"

definition available_f :: EffectDecision where
  "available_f = sample_decision\<lparr>eff_state := Available, eff_revision := 3\<rparr>"

definition blocked_h :: EffectDecision where
  "blocked_h = sample_decision\<lparr>eff_peerEntityId := ''h'', eff_state := Blocked, eff_revision := 3\<rparr>"

lemma read_two_peers_line:
  "read_decisions two_peers_line = Inr (Some (3, [available_f, blocked_h]))"
  by (simp add: two_peers_line_def available_f_def blocked_h_def sample_decision_def read_decisions_def
      EffectObjects_ObjectArray read_decision_def ParseState_def effect_scanner scan_eval)

lemma read_two_peers_profiles: "is_ok (read_profiles two_peers_line)"
  by (simp add: two_peers_line_def read_profiles_def scan_eval)

theorem OnJsonLine_effects_witness:
  "\<exists>c'. OnJsonLine two_peers_line effects_controller = (Inr (), c') \<and>
    find (decides_on ''e'' ''sensor'' ''radar'' ''f'') (waiting_effects c') = Some available_f \<and>
    find (decides_on ''e'' ''sensor'' ''radar'' ''h'') (waiting_effects c') = Some blocked_h \<and>
    find (decides_on ''g'' ''sensor'' ''radar'' ''f'') (waiting_effects c') = Some (sample_decision\<lparr>eff_entityId := ''g''\<rparr>)"
proof -
  have ok: "pending_ok (mPendingEffects effects_controller)"
    using pending_ok_store [of "[]"] by (simp add: effects_controller_def pending_ok_def)
  have e: "mGate effects_controller = new_effect_gate" "mMessageGate effects_controller = new_message_gate"
    "waiting_effects effects_controller = [sample_decision, sample_decision\<lparr>eff_entityId := ''g''\<rparr>]"
    by (simp_all add: effects_controller_def new_controller_def new_client_def small_config_def
        default_config_def waiting_effects_def store_effects_def EffectKey_def sample_decision_def)
  obtain r c' where on: "OnJsonLine two_peers_line effects_controller = (r, c')" by (rule prod.exhaust)
  obtain p where "read_profiles two_peers_line = Inr p" using read_two_peers_profiles by (auto simp: is_ok_iff)
  then have r: "r = Inr ()"
    using on read_two_peers_line
    by (auto simp: OnJsonLine_def UpdateFromMetricsJson_def UpdateEffects_def Let_def split: option.splits if_splits sum.splits)
  from OnJsonLine_effects [OF ok on, of 3 "[available_f, blocked_h]"] read_two_peers_line on r
  show ?thesis
    by (simp add: e new_effect_gate_def decides_on_def available_f_def blocked_h_def sample_decision_def)
qed

end
