(* ===== verification/Geo.thy ===== *)
theory Geo
  imports Complex_Main Protocol
begin

text \<open>
  \<open>src/windows_adapter/GeoCoordinates.hpp\<close> and \<open>.cpp\<close>: geodetic coordinates to the local
  east-north-up frame, and speed with heading and pitch to a velocity. The code is written
  once over the operations of a number type and used at two of them: the doubles the program
  runs on, where the library's \<open>sin\<close>, \<open>cos\<close> and \<open>sqrt\<close> are parameters, and the real numbers,
  where the formulas can be compared with the geometry they stand for.
\<close>

section \<open>Number types\<close>

record 'a arith =
  lit :: "rat \<Rightarrow> 'a"
  plus' :: "'a \<Rightarrow> 'a \<Rightarrow> 'a"
  minus' :: "'a \<Rightarrow> 'a \<Rightarrow> 'a"
  times' :: "'a \<Rightarrow> 'a \<Rightarrow> 'a"
  divide' :: "'a \<Rightarrow> 'a \<Rightarrow> 'a"
  neg' :: "'a \<Rightarrow> 'a"
  less' :: "'a \<Rightarrow> 'a \<Rightarrow> bool"
  finite' :: "'a \<Rightarrow> bool"
  sin' :: "'a \<Rightarrow> 'a"
  cos' :: "'a \<Rightarrow> 'a"
  sqrt' :: "'a \<Rightarrow> 'a"

definition double_arith :: "(double \<Rightarrow> double) \<Rightarrow> (double \<Rightarrow> double) \<Rightarrow> (double \<Rightarrow> double) \<Rightarrow> double arith" where
  "double_arith libm_sin libm_cos libm_sqrt =
     \<lparr>lit = fl, plus' = d_add, minus' = d_sub, times' = d_mul, divide' = d_div, neg' = d_neg,
      less' = d_lt, finite' = isfinite, sin' = libm_sin, cos' = libm_cos, sqrt' = libm_sqrt\<rparr>"

definition real_arith :: "real arith" where
  "real_arith =
     \<lparr>lit = of_rat, plus' = (+), minus' = (-), times' = (*), divide' = (/), neg' = uminus,
      less' = (<), finite' = (\<lambda>_. True), sin' = sin, cos' = cos, sqrt' = sqrt\<rparr>"

section \<open>The code\<close>

record 'a GeoPoint =
  latitudeDeg :: 'a
  longitudeDeg :: 'a
  altitudeM :: 'a

record 'a LocalEnuFrame =
  mOrigin :: "'a GeoPoint"
  mOriginEcef :: "'a \<times> 'a \<times> 'a"
  mSinLatitude :: 'a
  mCosLatitude :: 'a
  mSinLongitude :: 'a
  mCosLongitude :: 'a

definition Pi :: rat where
  "Pi = 314159265358979323846 / 10 ^ 20"

definition Wgs84SemiMajorM :: rat where
  "Wgs84SemiMajorM = 6378137"

definition Wgs84EccentricitySquared :: rat where
  "Wgs84EccentricitySquared = 66943799901413165 / 10 ^ 19"

definition Radians :: "'a arith \<Rightarrow> 'a \<Rightarrow> 'a" where
  "Radians A degrees = divide' A (times' A degrees (lit A Pi)) (lit A 180)"

definition Validate :: "'a arith \<Rightarrow> 'a GeoPoint \<Rightarrow> unit result" where
  "Validate A point =
     (if \<not> finite' A (latitudeDeg point) \<or> \<not> finite' A (longitudeDeg point) \<or>
         \<not> finite' A (altitudeM point) \<or>
         less' A (latitudeDeg point) (neg' A (lit A 90)) \<or> less' A (lit A 90) (latitudeDeg point) \<or>
         less' A (longitudeDeg point) (neg' A (lit A 180)) \<or> less' A (lit A 180) (longitudeDeg point)
      then Inl (Invalid_Argument ''invalid geodetic coordinate'') else Inr ())"

definition ToEcef :: "'a arith \<Rightarrow> 'a GeoPoint \<Rightarrow> ('a \<times> 'a \<times> 'a) result" where
  "ToEcef A point =
     rbind (Validate A point) (\<lambda>_.
       let latitude = Radians A (latitudeDeg point);
           longitude = Radians A (longitudeDeg point);
           sinLatitude = sin' A latitude;
           cosLatitude = cos' A latitude;
           e2 = lit A Wgs84EccentricitySquared;
           radius = divide' A (lit A Wgs84SemiMajorM)
             (sqrt' A (minus' A (lit A 1) (times' A (times' A e2 sinLatitude) sinLatitude))) in
       Inr
         (times' A (times' A (plus' A radius (altitudeM point)) cosLatitude) (cos' A longitude),
          times' A (times' A (plus' A radius (altitudeM point)) cosLatitude) (sin' A longitude),
          times' A (plus' A (times' A radius (minus' A (lit A 1) e2)) (altitudeM point)) sinLatitude))"

definition new_frame :: "'a arith \<Rightarrow> 'a GeoPoint \<Rightarrow> 'a LocalEnuFrame result" where
  "new_frame A origin =
     rbind (ToEcef A origin) (\<lambda>ecef.
       let latitude = Radians A (latitudeDeg origin); longitude = Radians A (longitudeDeg origin) in
       Inr \<lparr>mOrigin = origin, mOriginEcef = ecef,
         mSinLatitude = sin' A latitude, mCosLatitude = cos' A latitude,
         mSinLongitude = sin' A longitude, mCosLongitude = cos' A longitude\<rparr>)"

definition rotate :: "'a arith \<Rightarrow> 'a LocalEnuFrame \<Rightarrow> 'a \<times> 'a \<times> 'a \<Rightarrow> 'a \<times> 'a \<times> 'a" where
  "rotate A f = (\<lambda>(dx, dy, dz).
     (plus' A (times' A (neg' A (mSinLongitude f)) dx) (times' A (mCosLongitude f) dy),
      plus' A (minus' A (times' A (times' A (neg' A (mSinLatitude f)) (mCosLongitude f)) dx)
          (times' A (times' A (mSinLatitude f) (mSinLongitude f)) dy))
        (times' A (mCosLatitude f) dz),
      plus' A (plus' A (times' A (times' A (mCosLatitude f) (mCosLongitude f)) dx)
          (times' A (times' A (mCosLatitude f) (mSinLongitude f)) dy))
        (times' A (mSinLatitude f) dz)))"

definition ToEnu :: "'a arith \<Rightarrow> 'a LocalEnuFrame \<Rightarrow> 'a GeoPoint \<Rightarrow> ('a \<times> 'a \<times> 'a) result" where
  "ToEnu A f point =
     rbind (ToEcef A point) (\<lambda>(x, y, z).
       let (ox, oy, oz) = mOriginEcef f in
       Inr (rotate A f (minus' A x ox, minus' A y oy, minus' A z oz)))"

definition Origin :: "'a LocalEnuFrame \<Rightarrow> 'a GeoPoint" where
  "Origin f = mOrigin f"

definition VelocityFromSpeed :: "'a arith \<Rightarrow> 'a \<Rightarrow> 'a \<Rightarrow> 'a \<Rightarrow> ('a \<times> 'a \<times> 'a) result" where
  "VelocityFromSpeed A speedMps headingDeg pitchDeg =
     (if \<not> finite' A speedMps \<or> less' A speedMps (lit A 0) \<or> \<not> finite' A headingDeg \<or> \<not> finite' A pitchDeg
      then Inl (Invalid_Argument ''invalid speed or orientation'')
      else
        (let heading = Radians A headingDeg; pitch = Radians A pitchDeg;
             horizontal = times' A speedMps (cos' A pitch) in
         Inr (times' A horizontal (sin' A heading), times' A horizontal (cos' A heading),
           times' A speedMps (sin' A pitch))))"

text \<open>The structures the program passes on.\<close>

definition to_position :: "double \<times> double \<times> double \<Rightarrow> Position" where
  "to_position = (\<lambda>(x, y, z). \<lparr>xM = x, yM = y, zM = z\<rparr>)"

definition to_velocity :: "double \<times> double \<times> double \<Rightarrow> Velocity" where
  "to_velocity = (\<lambda>(x, y, z). \<lparr>vxMps = x, vyMps = y, vzMps = z\<rparr>)"

section \<open>The geometry, over the reals\<close>

abbreviation R :: "real arith" where "R \<equiv> real_arith"

lemma real_arith_simps [simp]:
  "lit R = of_rat" "plus' R = (+)" "minus' R = (-)" "times' R = (*)" "divide' R = (/)"
  "neg' R = uminus" "less' R = (<)" "finite' R x" "sin' R = sin" "cos' R = cos" "sqrt' R = sqrt"
  by (simp_all add: real_arith_def)

definition squared_length :: "real \<times> real \<times> real \<Rightarrow> real" where
  "squared_length = (\<lambda>(x, y, z). x\<^sup>2 + y\<^sup>2 + z\<^sup>2)"

lemma rotation_keeps_length:
  fixes s c s' c' x y z :: real
  assumes "s\<^sup>2 + c\<^sup>2 = 1" and "s'\<^sup>2 + c'\<^sup>2 = 1"
  shows "(- s' * x + c' * y)\<^sup>2 + (- s * c' * x - s * s' * y + c * z)\<^sup>2 + (c * c' * x + c * s' * y + s * z)\<^sup>2
    = x\<^sup>2 + y\<^sup>2 + z\<^sup>2"
  using assms by algebra

text \<open>
  C39. Over the reals the local frame is the exact geometry: distances from the origin are those
  of the earth-centred coordinates, and a point straight above the origin has no east or
  north component and its height as up component.
\<close>

theorem enu_is_isometry:
  assumes "new_frame R origin = Inr f" and "ToEcef R point = Inr (x, y, z)" and "mOriginEcef f = (ox, oy, oz)"
  shows "\<exists>v. ToEnu R f point = Inr v \<and> squared_length v = squared_length (x - ox, y - oy, z - oz) \<and>
    (point = origin\<lparr>altitudeM := altitudeM origin + h\<rparr> \<longrightarrow> v = (0, 0, h))"
proof -
  let ?la = "Radians R (latitudeDeg origin)" and ?lo = "Radians R (longitudeDeg origin)"
  have f: "mSinLatitude f = sin ?la" "mCosLatitude f = cos ?la" "mSinLongitude f = sin ?lo"
    "mCosLongitude f = cos ?lo" and o: "ToEcef R origin = Inr (ox, oy, oz)"
    using assms(1,3) by (auto simp: new_frame_def rbind_eq_Inr Let_def)
  have v: "ToEnu R f point = Inr (rotate R f (x - ox, y - oy, z - oz))"
    by (simp add: ToEnu_def assms(2,3))
  have len: "squared_length (rotate R f (x - ox, y - oy, z - oz)) = squared_length (x - ox, y - oy, z - oz)"
    using rotation_keeps_length [of "sin ?la" "cos ?la" "sin ?lo" "cos ?lo"]
    by (simp add: squared_length_def rotate_def f)
  have up: "rotate R f (x - ox, y - oy, z - oz) = (0, 0, h)"
    if p: "point = origin\<lparr>altitudeM := altitudeM origin + h\<rparr>"
  proof -
    have d: "x - ox = h * cos ?la * cos ?lo" "y - oy = h * cos ?la * sin ?lo" "z - oz = h * sin ?la"
      using assms(2) o by (auto simp: ToEcef_def rbind_eq_Inr Let_def p algebra_simps)
    have s: "(sin ?la)\<^sup>2 + (cos ?la)\<^sup>2 = 1" "(sin ?lo)\<^sup>2 + (cos ?lo)\<^sup>2 = 1" by simp_all
    have "- (sin ?la) * cos ?lo * (h * cos ?la * cos ?lo) - sin ?la * sin ?lo * (h * cos ?la * sin ?lo)
        + cos ?la * (h * sin ?la) = 0"
      using s by algebra
    moreover have "cos ?la * cos ?lo * (h * cos ?la * cos ?lo) + cos ?la * sin ?lo * (h * cos ?la * sin ?lo)
        + sin ?la * (h * sin ?la) = h"
      using s by algebra
    ultimately show ?thesis by (simp add: rotate_def f d)
  qed
  show ?thesis using v len up by blast
qed

text \<open>
  Over the reals the velocity has the given speed as its length, and points north for heading
  0 without pitch.
\<close>

lemma velocity_has_speed:
  assumes "0 \<le> speed"
  shows "\<exists>e n u. VelocityFromSpeed R speed heading pitch = Inr (e, n, u) \<and>
    squared_length (e, n, u) = speed\<^sup>2 \<and>
    (heading = 0 \<longrightarrow> pitch = 0 \<longrightarrow> e = 0 \<and> n = speed \<and> u = 0)"
proof -
  let ?h = "Radians R heading" and ?p = "Radians R pitch"
  have "(speed * cos ?p * sin ?h)\<^sup>2 + (speed * cos ?p * cos ?h)\<^sup>2 + (speed * sin ?p)\<^sup>2 = speed\<^sup>2"
    using sin_cos_squared_add [of ?h] sin_cos_squared_add [of ?p] by algebra
  moreover have "Radians R 0 = 0" by (simp add: Radians_def)
  ultimately show ?thesis
    using assms by (simp add: VelocityFromSpeed_def squared_length_def Let_def)
qed

definition sample_origin :: "real GeoPoint" where
  "sample_origin = \<lparr>latitudeDeg = 0, longitudeDeg = 0, altitudeM = 0\<rparr>"

theorem enu_is_isometry_witness:
  "\<exists>f. new_frame R sample_origin = Inr f \<and> ToEnu R f (sample_origin\<lparr>altitudeM := 5\<rparr>) = Inr (0, 0, 5)"
proof -
  obtain f where f: "new_frame R sample_origin = Inr f"
    by (simp add: new_frame_def ToEcef_def Validate_def sample_origin_def Let_def)
  obtain x y z where p: "ToEcef R (sample_origin\<lparr>altitudeM := 5\<rparr>) = Inr (x, y, z)"
    by (simp add: ToEcef_def Validate_def sample_origin_def Let_def)
  obtain ox oy oz where "mOriginEcef f = (ox, oy, oz)" by (cases "mOriginEcef f")
  from enu_is_isometry [OF f p this, of 5] f show ?thesis by (auto simp: sample_origin_def)
qed

section \<open>Errors and exactness, on the doubles\<close>

definition in_range :: "double \<Rightarrow> rat \<Rightarrow> bool" where
  "in_range x limit \<longleftrightarrow> isfinite x \<and> - limit \<le> dval x \<and> dval x \<le> limit"

lemma fl_limits: "fl 90 = Fin 90" "fl 180 = Fin 180" "fl 1 = Fin 1"
  using d_of_nat_exact [of 90] d_of_nat_exact [of 180] d_of_nat_exact [of 1] by (simp_all add: d_of_nat_def)

lemma in_range_lt:
  "isfinite x \<Longrightarrow> 0 < limit \<Longrightarrow>
    in_range x limit \<longleftrightarrow> \<not> d_lt x (d_neg (Fin limit)) \<and> \<not> d_lt (Fin limit) x"
  by (auto simp: in_range_def d_lt_finite not_less)

lemma ToEcef_ok:
  "is_ok (ToEcef (double_arith s c q) p) \<longleftrightarrow>
    in_range (latitudeDeg p) 90 \<and> in_range (longitudeDeg p) 180 \<and> isfinite (altitudeM p)"
  using in_range_lt [of "latitudeDeg p" 90] in_range_lt [of "longitudeDeg p" 180]
  by (auto simp: ToEcef_def Validate_def double_arith_def fl_limits Let_def in_range_def)

lemma ToEnu_ok: "is_ok (ToEnu (double_arith s c q) f p) \<longleftrightarrow> is_ok (ToEcef (double_arith s c q) p)"
  by (cases "ToEcef (double_arith s c q) p") (auto simp: ToEnu_def Let_def split: prod.split)

lemma new_frame_ok: "is_ok (new_frame (double_arith s c q) p) \<longleftrightarrow> is_ok (ToEcef (double_arith s c q) p)"
  by (cases "ToEcef (double_arith s c q) p") (auto simp: new_frame_def Let_def)

lemma VelocityFromSpeed_ok:
  "is_ok (VelocityFromSpeed (double_arith s c q) speed heading pitch) \<longleftrightarrow>
    isfinite speed \<and> 0 \<le> dval speed \<and> isfinite heading \<and> isfinite pitch"
  by (auto simp: VelocityFromSpeed_def double_arith_def Let_def d_lt_finite not_less)

text \<open>
  C40. On the doubles a coordinate is rejected exactly when one of its numbers is not finite or
  out of range, and a motion exactly when one of its numbers is not finite or the speed is
  negative; nothing else throws, whatever the mathematical library returns.
\<close>

theorem geo_validation:
  "(is_ok (ToEcef (double_arith s c q) point) \<longleftrightarrow>
      in_range (latitudeDeg point) 90 \<and> in_range (longitudeDeg point) 180 \<and> isfinite (altitudeM point)) \<and>
   (\<forall>f. is_ok (ToEnu (double_arith s c q) f point) \<longleftrightarrow> is_ok (ToEcef (double_arith s c q) point)) \<and>
   (is_ok (new_frame (double_arith s c q) point) \<longleftrightarrow> is_ok (ToEcef (double_arith s c q) point)) \<and>
   (is_ok (VelocityFromSpeed (double_arith s c q) speed heading pitch) \<longleftrightarrow>
      isfinite speed \<and> 0 \<le> dval speed \<and> isfinite heading \<and> isfinite pitch)"
  using ToEcef_ok ToEnu_ok new_frame_ok VelocityFromSpeed_ok by blast

lemma d_sub_self: "isfinite x \<Longrightarrow> d_sub x x = Fin 0"
  by (cases x) (auto simp: d_sub_def)

definition zero_valued :: "double \<Rightarrow> bool" where
  "zero_valued x \<longleftrightarrow> isfinite x \<and> dval x = 0"

lemma zero_valued_mul: "isfinite x \<Longrightarrow> zero_valued y \<Longrightarrow> zero_valued (d_mul x y)"
  by (cases x; cases y) (auto simp: zero_valued_def signed_zero_def Let_def)

lemma zero_valued_add: "zero_valued x \<Longrightarrow> zero_valued y \<Longrightarrow> zero_valued (d_add x y)"
  by (cases x; cases y) (auto simp: zero_valued_def)

lemma zero_valued_neg: "zero_valued x \<Longrightarrow> zero_valued (d_neg x)"
  by (cases x) (auto simp: zero_valued_def)

lemma isfinite_neg: "isfinite x \<Longrightarrow> isfinite (d_neg x)"
  by (cases x) auto

text \<open>
  On the doubles the origin itself is mapped to the zero vector without any rounding error,
  provided its earth-centred coordinates and the products of its sines and cosines are finite.
\<close>

lemma origin_maps_to_zero:
  assumes "new_frame (double_arith s c q) origin = Inr f"
    and "mOriginEcef f = (x, y, z)" and "isfinite x" "isfinite y" "isfinite z"
    and "list_all isfinite [mSinLatitude f, mCosLatitude f, mSinLongitude f, mCosLongitude f,
      d_mul (d_neg (mSinLatitude f)) (mCosLongitude f), d_mul (mSinLatitude f) (mSinLongitude f),
      d_mul (mCosLatitude f) (mCosLongitude f), d_mul (mCosLatitude f) (mSinLongitude f)]"
  shows "\<exists>e n u. ToEnu (double_arith s c q) f origin = Inr (e, n, u) \<and>
    zero_valued e \<and> zero_valued n \<and> zero_valued u"
proof -
  have "ToEcef (double_arith s c q) origin = Inr (x, y, z)"
    using assms(1,2) by (auto simp: new_frame_def rbind_eq_Inr Let_def)
  then have "ToEnu (double_arith s c q) f origin = Inr (rotate (double_arith s c q) f (Fin 0, Fin 0, Fin 0))"
    using assms(2-5) by (simp add: ToEnu_def double_arith_def d_sub_self)
  moreover have "zero_valued (Fin 0)" by (simp add: zero_valued_def)
  ultimately show ?thesis
    using assms(6)
    by (simp add: rotate_def double_arith_def d_sub_def isfinite_neg zero_valued_mul zero_valued_add zero_valued_neg)
qed

end
