(* ===== verification/ExtensionConfig.thy ===== *)
theory ExtensionConfig
  imports CxxText
begin

text \<open>
  The free functions and the configuration of
  \<open>src/afsim_extension/source/AfsimNs3Extension.cpp\<close>: the environment variables with their
  fallbacks and limits, the conversion of a heading to degrees and of seconds to milliseconds.
  The environment is a function from names to values.
\<close>

section \<open>Environment variables\<close>

type_synonym environment = "string \<Rightarrow> string option"

definition EnvironmentText :: "environment \<Rightarrow> string \<Rightarrow> string \<Rightarrow> string" where
  "EnvironmentText env name fallback =
     (case env name of Some v \<Rightarrow> if v \<noteq> [] then v else fallback | None \<Rightarrow> fallback)"

definition EnvironmentHasValue :: "environment \<Rightarrow> string \<Rightarrow> bool" where
  "EnvironmentHasValue env name = (case env name of Some v \<Rightarrow> v \<noteq> [] | None \<Rightarrow> False)"

definition EnvironmentDouble :: "environment \<Rightarrow> string \<Rightarrow> double \<Rightarrow> double \<Rightarrow> double" where
  "EnvironmentDouble env name fallback minimum =
     (case stod (EnvironmentText env name []) of
        Inr (x, _) \<Rightarrow> d_max minimum x
      | Inl _ \<Rightarrow> fallback)"

definition EnvironmentUint32 :: "environment \<Rightarrow> string \<Rightarrow> u32 \<Rightarrow> u32 \<Rightarrow> u32" where
  "EnvironmentUint32 env name fallback minimum =
     (case stoull (EnvironmentText env name []) of
        Inr parsed \<Rightarrow> if 0xFFFFFFFF < parsed then fallback else max minimum (ucast parsed)
      | Inl _ \<Rightarrow> fallback)"

definition EnvironmentUint64 :: "environment \<Rightarrow> string \<Rightarrow> u64 \<Rightarrow> u64 \<Rightarrow> u64" where
  "EnvironmentUint64 env name fallback minimum =
     (case stoull (EnvironmentText env name []) of
        Inr parsed \<Rightarrow> max minimum parsed
      | Inl _ \<Rightarrow> fallback)"

definition EnvironmentFlag :: "environment \<Rightarrow> string \<Rightarrow> bool \<Rightarrow> bool" where
  "EnvironmentFlag env name fallback =
     (let v = map c_tolower (EnvironmentText env name (if fallback then ''1'' else ''0'')) in
      v = ''1'' \<or> v = ''true'' \<or> v = ''yes'' \<or> v = ''on'')"

section \<open>Angles and times\<close>

definition Pi_literal :: rat where
  "Pi_literal = 314159265358979323846 / 10 ^ 20"

text \<open>The two loops of \<open>Degrees\<close>; \<^term>\<open>None\<close> when one of them does not end.\<close>

partial_function (option) degrees_up :: "double \<Rightarrow> double option" where
  "degrees_up v = (if d_lt v (Fin 0) then degrees_up (d_add v (Fin 360)) else Some v)"

partial_function (option) degrees_down :: "double \<Rightarrow> double option" where
  "degrees_down v = (if d_le (Fin 360) v then degrees_down (d_sub v (Fin 360)) else Some v)"

definition Degrees :: "double \<Rightarrow> double option" where
  "Degrees radians =
     Option.bind (degrees_up (d_div (d_mul radians (Fin 180)) (fl Pi_literal))) degrees_down"

text \<open>
  The conversion is defined because the value is below \<open>2 ^ 32\<close> there (\<open>Milliseconds_defined\<close>);
  \<^term>\<open>the\<close> stands for it.
\<close>

definition Milliseconds :: "double \<Rightarrow> u32 \<Rightarrow> u32" where
  "Milliseconds seconds minimum =
     (let milliseconds = d_mul seconds (Fin 1000) in
      if \<not> isfinite milliseconds then minimum
      else if d_le (d_of_nat 0xFFFFFFFF) milliseconds then 0xFFFFFFFF
      else max minimum (the (d_to_u32 (d_max (Fin 0) (d_round milliseconds)))))"

section \<open>Configuration\<close>

record RuntimeConfig =
  rc_host :: string
  rc_port :: u16
  rc_intervalSeconds :: double
  rc_defaultDataRateBps :: u64
  rc_defaultDelayMs :: double
  rc_delayOverride :: bool
  rc_defaultLossRate :: double
  rc_lossOverride :: bool
  rc_linkKind :: string
  rc_traceTicks :: bool

definition runtime_config :: "environment \<Rightarrow> RuntimeConfig" where
  "runtime_config env =
     \<lparr>rc_host = EnvironmentText env ''AFSIM_NS3_HOST'' ''127.0.0.1'',
      rc_port = ucast (min 65535 (EnvironmentUint32 env ''AFSIM_NS3_PORT'' 18080 1)),
      rc_intervalSeconds = EnvironmentDouble env ''AFSIM_NS3_INTERVAL_SECONDS'' (Fin 1) (fl (5 / 100)),
      rc_defaultDataRateBps = EnvironmentUint64 env ''AFSIM_NS3_DATA_RATE_BPS'' 1000000 1,
      rc_defaultDelayMs = EnvironmentDouble env ''AFSIM_NS3_DELAY_MS'' (Fin 1) (Fin 0),
      rc_delayOverride = EnvironmentHasValue env ''AFSIM_NS3_DELAY_MS'',
      rc_defaultLossRate = d_min (Fin 1) (EnvironmentDouble env ''AFSIM_NS3_LOSS_RATE'' (Fin 0) (Fin 0)),
      rc_lossOverride = EnvironmentHasValue env ''AFSIM_NS3_LOSS_RATE'',
      rc_linkKind = EnvironmentText env ''AFSIM_NS3_LINK_KIND'' ''wireless'',
      rc_traceTicks = EnvironmentFlag env ''AFSIM_NS3_TRACE_TICKS'' False\<rparr>"

end
