(* ===== verification/Extension.thy ===== *)
theory Extension
  imports Controller Geo ExtensionConfig
begin

text \<open>
  \<open>src/afsim_extension/source/AfsimNs3Extension.cpp\<close>, first part: the state of
  \<open>BridgeSimulationExtension\<close>, its construction, and its observers of AFSIM's messages. AFSIM
  itself is not part of the repository. What the code reads from its objects are records here
  (a communication device, a platform, a message, a result), passed to the operations as the
  objects have it at the time of the call; its constants and the mathematical library are the
  record \<open>Afsim\<close>. A pointer that may be null is an option. \<open>AppendLog\<close> adds to the list of
  lines in the state; the file behind it is not modelled.
\<close>

section \<open>What the extension sees of AFSIM\<close>

record Comm =
  comm_ptr :: nat
  comm_name :: string
  comm_platform :: "nat option"

record WsfMessage =
  msg_serial :: u32
  msg_type :: string
  msg_subType :: string
  msg_sizeBits :: int
  msg_sizeBytes :: int

datatype LinkDisconnectReason = UNKNOWN_ERROR | NO_ROUTER_BRIDGE | SIGNAL_LEVEL_INSUFFICIENT | LINK_CONNECTED

record CommResult =
  cr_checkedStatus :: u32
  cr_failedStatus :: u32
  cr_dataRate :: double
  cr_disconnectReason :: "(LinkDisconnectReason \<times> string) option"

text \<open>
  The status bit of the signal level, the functions of the mathematical library, and the value
  the compiled conversion gives where the language leaves it undefined.
\<close>

record Afsim =
  a_signalLevel :: u32
  a_sin :: "double \<Rightarrow> double"
  a_cos :: "double \<Rightarrow> double"
  a_sqrt :: "double \<Rightarrow> double"
  a_undefined :: "double \<Rightarrow> u64"

text \<open>\<open>static_cast<std::uint64_t>(x)\<close>, and its use after \<open>std::min(rate, UINT64_MAX)\<close>.\<close>

definition cast_u64 :: "Afsim \<Rightarrow> double \<Rightarrow> u64" where
  "cast_u64 A x = (case d_to_u64 x of Some n \<Rightarrow> n | None \<Rightarrow> a_undefined A x)"

definition to_rate :: "Afsim \<Rightarrow> double \<Rightarrow> u64" where
  "to_rate A rate = cast_u64 A (d_min rate (d_of_nat (2 ^ 64 - 1)))"

section \<open>State\<close>

record LinkObservation =
  ob_completed :: u64
  ob_failures :: u64
  ob_delayTotalMs :: double
  ob_delaySamples :: u64
  ob_lastDataRateBps :: u64
  ob_lastDelayMs :: double
  ob_lastLossRate :: double
  ob_hasDataRate :: bool
  ob_hasDelay :: bool
  ob_hasLoss :: bool

definition new_observation :: LinkObservation where
  "new_observation = \<lparr>ob_completed = 0, ob_failures = 0, ob_delayTotalMs = Fin 0, ob_delaySamples = 0,
     ob_lastDataRateBps = 0, ob_lastDelayMs = Fin 0, ob_lastLossRate = Fin 0, ob_hasDataRate = False,
     ob_hasDelay = False, ob_hasLoss = False\<rparr>"

record ObservedFlow =
  of_flowId :: string
  of_sourceEntityId :: string
  of_targetEntityId :: string
  of_packetSizeBytes :: u32
  of_intervalMs :: u32
  of_durationMs :: u32
  of_lastSeenTime :: double
  of_lastSerial :: u32
  of_hasSerial :: bool

definition new_observed_flow :: ObservedFlow where
  "new_observed_flow = \<lparr>of_flowId = [], of_sourceEntityId = [], of_targetEntityId = [],
     of_packetSizeBytes = 64, of_intervalMs = 1, of_durationMs = 100, of_lastSeenTime = Fin (- 1),
     of_lastSerial = 0, of_hasSerial = False\<rparr>"

type_synonym LinkKey = "nat \<times> nat"
type_synonym MessageKey = "nat \<times> u32"
type_synonym FlowKey = "string \<times> string \<times> string \<times> string \<times> string \<times> string"

record Bridge =
  mConfig :: RuntimeConfig
  mController :: Controller
  mEnuFrame :: "double LocalEnuFrame option"
  mCallbacks :: bool
  mConfiguredDataRates :: "(nat, u64) cmap"
  mLinkObservations :: "(LinkKey, LinkObservation) cmap"
  mTransmitTimes :: "(MessageKey, double) cmap"
  mExternallyGatedMessages :: "(MessageKey, unit) cmap"
  mExternallyDroppedMessages :: "(MessageKey, unit) cmap"
  mObservedFlows :: "(FlowKey, ObservedFlow) cmap"
  mRunId :: string
  mTick :: u64
  mStopping :: bool
  log_lines :: "string list"

definition AppendLog :: "string \<Rightarrow> Bridge \<Rightarrow> Bridge" where
  "AppendLog message b = b\<lparr>log_lines := log_lines b @ [message]\<rparr>"

definition client_config :: "RuntimeConfig \<Rightarrow> TcpClientConfig" where
  "client_config config = \<lparr>cfg_host = rc_host config, cfg_port = rc_port config,
     cfg_connectTimeoutMs = 250, cfg_reconnectDelayMs = 250, cfg_maxPendingMessages = 32\<rparr>"

text \<open>The constructor, with the reading of the clock; it throws what the client's throws.\<close>

definition new_bridge :: "environment \<Rightarrow> nat \<Rightarrow> Bridge result" where
  "new_bridge env clock =
     (let config = runtime_config env in
      rbind (new_controller (client_config config)) (\<lambda>controller.
        Inr \<lparr>mConfig = config, mController = SetEffectErrorHandler True controller, mEnuFrame = None,
          mCallbacks = False, mConfiguredDataRates = [], mLinkObservations = [], mTransmitTimes = [],
          mExternallyGatedMessages = [], mExternallyDroppedMessages = [], mObservedFlows = [],
          mRunId = ''afsim-'' @ show_nat clock, mTick = 0, mStopping = False, log_lines = []\<rparr>))"

section \<open>Effects\<close>

definition effect_error_line :: "EffectDecision \<Rightarrow> string \<Rightarrow> string" where
  "effect_error_line decision error =
     ''EFFECT_ERROR entity='' @ eff_entityId decision @ '' subsystem='' @ eff_subsystemId decision
     @ '' state='' @ state_text (eff_state decision) @ '' error='' @ error"

text \<open>The sink of the effects, as a function of the log.\<close>

definition ApplyNetworkEffect :: "EffectDecision \<Rightarrow> string list \<Rightarrow> unit result \<times> string list" where
  "ApplyNetworkEffect decision l =
     (Inr (), l @ [''EFFECT_IGNORED entity='' @ eff_entityId decision @ '' subsystem='' @ eff_subsystemId decision
        @ '' state='' @ state_text (eff_state decision)])"

definition ignored_line :: "EffectDecision \<Rightarrow> string" where
  "ignored_line decision = ''EFFECT_IGNORED entity='' @ eff_entityId decision @ '' subsystem=''
     @ eff_subsystemId decision @ '' state='' @ state_text (eff_state decision)"

interpretation logging: effect_sink ApplyNetworkEffect "\<lambda>d l. l @ [ignored_line d]"
  by unfold_locales (simp add: ApplyNetworkEffect_def ignored_line_def)

section \<open>Flows\<close>

definition flow_id :: "FlowKey \<Rightarrow> string" where
  "flow_id = (\<lambda>(source, transmitter, target, receiver, messageType, messageSubType).
     ''afsim-message:'' @ source @ '':'' @ transmitter @ ''->'' @ target @ '':'' @ receiver @ '':''
     @ messageType @ '':'' @ messageSubType)"

text \<open>A flow seen for the first time, the interval since the last message, the size.\<close>

definition name_flow :: "RuntimeConfig \<Rightarrow> FlowKey \<Rightarrow> ObservedFlow \<Rightarrow> ObservedFlow" where
  "name_flow config key flow =
     (if of_flowId flow = [] then
        flow\<lparr>of_flowId := flow_id key, of_sourceEntityId := fst key, of_targetEntityId := fst (snd (snd key)),
          of_intervalMs := Milliseconds (rc_intervalSeconds config) 1,
          of_durationMs := Milliseconds (rc_intervalSeconds config) 100\<rparr>
      else flow)"

definition time_flow :: "double \<Rightarrow> u32 \<Rightarrow> ObservedFlow \<Rightarrow> ObservedFlow" where
  "time_flow simTime serial flow =
     (if \<not> of_hasSerial flow \<or> of_lastSerial flow \<noteq> serial then
        (let flow = (if d_le (Fin 0) (of_lastSeenTime flow) \<and> d_lt (of_lastSeenTime flow) simTime
                     then flow\<lparr>of_intervalMs := Milliseconds (d_sub simTime (of_lastSeenTime flow)) 1\<rparr>
                     else flow) in
         flow\<lparr>of_lastSeenTime := simTime, of_lastSerial := serial, of_hasSerial := True\<rparr>)
      else flow)"

definition flow_key :: "nat \<Rightarrow> Comm \<Rightarrow> nat \<Rightarrow> Comm \<Rightarrow> WsfMessage \<Rightarrow> FlowKey" where
  "flow_key source t target r message =
     (show_nat source, comm_name t, show_nat target, comm_name r, msg_type message, msg_subType message)"

definition RecordFlow :: "double \<Rightarrow> Comm option \<Rightarrow> Comm option \<Rightarrow> WsfMessage \<Rightarrow> Bridge \<Rightarrow> Bridge" where
  "RecordFlow simTime transmitter receiver message b =
     (case (transmitter, receiver) of
        (Some t, Some r) \<Rightarrow>
          (case (comm_platform t, comm_platform r) of
             (Some source, Some target) \<Rightarrow>
               (if show_nat source = show_nat target then b
                else
                  (let key = flow_key source t target r message;
                       flow = (case map_find (mObservedFlows b) key of Some f \<Rightarrow> f | None \<Rightarrow> new_observed_flow);
                       flow = time_flow simTime (msg_serial message) (name_flow (mConfig b) key flow);
                       flow = flow\<lparr>of_packetSizeBytes := of_int (max 64 (msg_sizeBytes message))\<rparr> in
                   b\<lparr>mObservedFlows := map_put key flow (mObservedFlows b)\<rparr>))
           | _ \<Rightarrow> b)
      | _ \<Rightarrow> b)"

section \<open>Observations of links\<close>

definition observation :: "Bridge \<Rightarrow> LinkKey \<Rightarrow> LinkObservation" where
  "observation b key = (case map_find (mLinkObservations b) key of Some ob \<Rightarrow> ob | None \<Rightarrow> new_observation)"

definition put_observation :: "LinkKey \<Rightarrow> LinkObservation \<Rightarrow> Bridge \<Rightarrow> Bridge" where
  "put_observation key ob b = b\<lparr>mLinkObservations := map_put key ob (mLinkObservations b)\<rparr>"

definition UpdateObservedDataRate :: "Afsim \<Rightarrow> LinkObservation \<Rightarrow> CommResult \<Rightarrow> LinkObservation" where
  "UpdateObservedDataRate A ob result =
     (if isfinite (cr_dataRate result) \<and> d_lt (Fin 0) (cr_dataRate result)
      then ob\<lparr>ob_lastDataRateBps := to_rate A (cr_dataRate result), ob_hasDataRate := True\<rparr>
      else ob)"

definition UpdateObservedDelayAndRate ::
  "Afsim \<Rightarrow> double \<Rightarrow> Comm \<Rightarrow> WsfMessage \<Rightarrow> bool \<Rightarrow> LinkObservation \<Rightarrow> (MessageKey, double) cmap \<Rightarrow>
     LinkObservation \<times> (MessageKey, double) cmap" where
  "UpdateObservedDelayAndRate A simTime transmitter message inferRate ob transmitTimes =
     (let key = (comm_ptr transmitter, msg_serial message) in
      case map_find transmitTimes key of
        None \<Rightarrow> (ob, transmitTimes)
      | Some transmitted \<Rightarrow>
          (let delaySeconds = d_max (Fin 0) (d_sub simTime transmitted);
               delayMs = d_mul delaySeconds (Fin 1000);
               ob = (if isfinite delayMs
                     then ob\<lparr>ob_delayTotalMs := d_add (ob_delayTotalMs ob) delayMs,
                       ob_delaySamples := ob_delaySamples ob + 1\<rparr>
                     else ob);
               effectiveRate = d_div (d_of_nat (nat (msg_sizeBits message))) delaySeconds;
               ob = (if inferRate \<and> d_lt (Fin 0) delaySeconds \<and> 0 < msg_sizeBits message \<and>
                       isfinite effectiveRate \<and> d_lt (Fin 0) effectiveRate
                     then ob\<lparr>ob_lastDataRateBps := to_rate A effectiveRate, ob_hasDataRate := True\<rparr>
                     else ob) in
           (ob, map_erase key transmitTimes)))"

section \<open>Observers of AFSIM's messages\<close>

definition message_line :: "string \<Rightarrow> double \<Rightarrow> WsfMessage \<Rightarrow> string" where
  "message_line kind simTime message =
     kind @ '' serial='' @ show_nat (unat (msg_serial message)) @ '' sim_time='' @ show_fixed 6 simTime"

text \<open>The receiver is the device at the message's destination, when AFSIM finds one.\<close>

definition MessageTransmitted ::
  "double \<Rightarrow> Comm option \<Rightarrow> Comm option \<Rightarrow> WsfMessage \<Rightarrow> Bridge \<Rightarrow> Bridge" where
  "MessageTransmitted simTime transmitter receiver message b =
     (case transmitter of
        None \<Rightarrow> b
      | Some t \<Rightarrow>
          (let b = b\<lparr>mTransmitTimes := map_put (comm_ptr t, msg_serial message) simTime (mTransmitTimes b)\<rparr>;
               b = RecordFlow simTime transmitter receiver message b in
           AppendLog (message_line ''MESSAGE_TX'' simTime message) b))"

definition gate_line :: "string \<Rightarrow> string \<Rightarrow> WsfMessage \<Rightarrow> MessageTransportDecision \<Rightarrow> string" where
  "gate_line source target message decision =
     ''MESSAGE_GATE serial='' @ show_nat (unat (msg_serial message))
     @ '' source='' @ source @ '' target='' @ target
     @ '' revision='' @ show_nat (unat (dec_revision decision))
     @ '' decision='' @ disposition_text (dec_disposition decision)
     @ '' reason='' @ dec_reason decision @ '' delay_ms='' @ show_fixed 3 (dec_delayMs decision)
     @ '' loss_rate='' @ show_fixed 3 (dec_lossRate decision)"

definition reject_result :: "Afsim \<Rightarrow> LinkDisconnectReason \<Rightarrow> string \<Rightarrow> CommResult \<Rightarrow> CommResult" where
  "reject_result A reason text result =
     result\<lparr>cr_checkedStatus := cr_checkedStatus result OR a_signalLevel A,
       cr_failedStatus := cr_failedStatus result OR a_signalLevel A,
       cr_disconnectReason := Some (reason, ''AFSIM_NS3_GATE_DROP:'' @ text)\<rparr>"

definition accept_result :: "Afsim \<Rightarrow> double \<Rightarrow> CommResult \<Rightarrow> CommResult" where
  "accept_result A totalDelaySeconds result =
     result\<lparr>cr_checkedStatus := cr_checkedStatus result OR a_signalLevel A,
       cr_disconnectReason := Some (LINK_CONNECTED,
         ''AFSIM_NS3_GATE_TOTAL_DELAY_SECONDS:'' @ show_fixed 6 totalDelaySeconds)\<rparr>"

definition MessageDeliveryAttempt ::
  "Afsim \<Rightarrow> double \<Rightarrow> Comm option \<Rightarrow> Comm option \<Rightarrow> WsfMessage \<Rightarrow> CommResult \<Rightarrow> Bridge \<Rightarrow> CommResult \<times> Bridge" where
  "MessageDeliveryAttempt A simTime transmitter receiver message result b =
     (case (transmitter, receiver) of
        (Some t, Some r) \<Rightarrow>
          (let messageKey = (comm_ptr t, msg_serial message);
               b = b\<lparr>mExternallyGatedMessages := map_put messageKey () (mExternallyGatedMessages b)\<rparr>;
               b = RecordFlow simTime transmitter receiver message b;
               link = (comm_ptr t, comm_ptr r);
               b = put_observation link (UpdateObservedDataRate A (observation b link) result) b in
           case (comm_platform t, comm_platform r) of
             (Some source, Some target) \<Rightarrow>
               (let decision = DecideMessage (mController b) (show_nat source) (show_nat target)
                      (ucast (msg_serial message)) in
                if dec_disposition decision \<noteq> Deliver then
                  (reject_result A
                     (if dec_disposition decision = NoLink then NO_ROUTER_BRIDGE else SIGNAL_LEVEL_INSUFFICIENT)
                     (dec_reason decision) result,
                   AppendLog (gate_line (show_nat source) (show_nat target) message decision)
                     (b\<lparr>mExternallyDroppedMessages := map_put messageKey () (mExternallyDroppedMessages b)\<rparr>))
                else
                  (accept_result A (d_div (d_max (Fin 0) (dec_delayMs decision)) (Fin 1000)) result,
                   AppendLog (gate_line (show_nat source) (show_nat target) message decision)
                     (b\<lparr>mExternallyDroppedMessages := map_erase messageKey (mExternallyDroppedMessages b)\<rparr>)))
           | _ \<Rightarrow>
               (reject_result A UNKNOWN_ERROR ''PLATFORM_NOT_FOUND'' result,
                AppendLog (''MESSAGE_GATE serial='' @ show_nat (unat (msg_serial message))
                    @ '' decision=NO_LINK reason=PLATFORM_NOT_FOUND'')
                  (b\<lparr>mExternallyDroppedMessages := map_put messageKey () (mExternallyDroppedMessages b)\<rparr>)))
      | _ \<Rightarrow> (result, b))"

text \<open>One more message completed on a link, and one more failed.\<close>

definition count_completed :: "bool \<Rightarrow> LinkObservation \<Rightarrow> LinkObservation" where
  "count_completed failed ob =
     (let ob = ob\<lparr>ob_completed := ob_completed ob + 1\<rparr> in
      if failed then ob\<lparr>ob_failures := ob_failures ob + 1\<rparr> else ob)"

text \<open>
  The delay of a message that was not gated is observed; the time of a gated one is forgotten.
\<close>

definition settle_message ::
  "Afsim \<Rightarrow> double \<Rightarrow> Comm \<Rightarrow> WsfMessage \<Rightarrow> bool \<Rightarrow> bool \<Rightarrow> LinkObservation \<Rightarrow> Bridge \<Rightarrow> LinkObservation \<times> Bridge" where
  "settle_message A simTime t message gated inferRate ob b =
     (if \<not> gated then
        (let (ob, transmitTimes) = UpdateObservedDelayAndRate A simTime t message inferRate ob (mTransmitTimes b) in
         (ob, b\<lparr>mTransmitTimes := transmitTimes\<rparr>))
      else (ob, b\<lparr>mTransmitTimes := map_erase (comm_ptr t, msg_serial message) (mTransmitTimes b)\<rparr>))"

definition MessageReceived ::
  "Afsim \<Rightarrow> double \<Rightarrow> Comm option \<Rightarrow> Comm option \<Rightarrow> WsfMessage \<Rightarrow> CommResult \<Rightarrow> Bridge \<Rightarrow> Bridge" where
  "MessageReceived A simTime transmitter receiver message result b =
     (case (transmitter, receiver) of
        (Some t, Some r) \<Rightarrow>
          (let b = RecordFlow simTime transmitter receiver message b;
               link = (comm_ptr t, comm_ptr r);
               messageKey = (comm_ptr t, msg_serial message);
               externallyGated = map_has (mExternallyGatedMessages b) messageKey;
               b = b\<lparr>mExternallyGatedMessages := map_erase messageKey (mExternallyGatedMessages b)\<rparr>;
               ob = count_completed (cr_failedStatus result \<noteq> 0) (observation b link);
               (ob, b) = settle_message A simTime t message externallyGated True ob b;
               ob = UpdateObservedDataRate A ob result in
           AppendLog (message_line ''MESSAGE_RX'' simTime message) (put_observation link ob b))
      | _ \<Rightarrow> b)"

definition MessageDiscarded ::
  "Afsim \<Rightarrow> double \<Rightarrow> Comm option \<Rightarrow> Comm option \<Rightarrow> WsfMessage \<Rightarrow> Bridge \<Rightarrow> Bridge" where
  "MessageDiscarded A simTime transmitter receiver message b =
     (case (transmitter, receiver) of
        (Some t, Some r) \<Rightarrow>
          (let b = RecordFlow simTime transmitter receiver message b;
               link = (comm_ptr t, comm_ptr r);
               ob = observation b link;
               messageKey = (comm_ptr t, msg_serial message);
               externallyDropped = map_has (mExternallyDroppedMessages b) messageKey;
               b = b\<lparr>mExternallyDroppedMessages := map_erase messageKey (mExternallyDroppedMessages b)\<rparr>;
               externallyGated = map_has (mExternallyGatedMessages b) messageKey;
               b = b\<lparr>mExternallyGatedMessages := map_erase messageKey (mExternallyGatedMessages b)\<rparr>;
               (ob, b) =
                 (if externallyDropped then (ob, b)
                  else settle_message A simTime t message externallyGated False (count_completed True ob) b) in
           AppendLog (message_line ''MESSAGE_DISCARD'' simTime message @ '' external=''
               @ (if externallyDropped then ''1'' else ''0'')) (put_observation link ob b))
      | _ \<Rightarrow> b)"

end
