(* ===== verification/ExtensionTick.thy ===== *)
theory ExtensionTick
  imports Extension
begin

text \<open>
  \<open>src/afsim_extension/source/AfsimNs3Extension.cpp\<close>, second part: what is read of every
  platform and device at a simulation step, the state collected from it, the step itself with
  its recurring event, and the start and the end of a simulation. An operation that may throw
  gives its result or the exception with the state it leaves; \<^term>\<open>None\<close> stands for a step
  that does not return (a heading whose conversion never ends).
\<close>

section \<open>The simulation at a step\<close>

datatype medium = Guided | Unguided | Other_Medium

text \<open>
  A device: what its accessors return, with the transfer rate its physical layer would draw,
  and the last draws of delay and propagation speed of its current mode if that is a guided one.
\<close>

record CommView = Comm +
  cv_network :: string
  cv_turnedOn :: bool
  cv_canSend :: bool
  cv_canReceive :: bool
  cv_linkPairs :: "(string \<times> string) list"
  cv_lastDataRate :: double
  cv_transferRate :: "double option"
  cv_medium :: "medium option"
  cv_guidedMode :: "(double \<times> double) option"

record PlatformView =
  pv_index :: nat
  pv_name :: string
  pv_broken :: bool
  pv_deleted :: bool
  pv_locationLLA :: "double \<times> double \<times> double"
  pv_velocityNED :: "double \<times> double \<times> double"
  pv_heading :: double
  pv_comms :: "CommView option list"

record AfsimWorld =
  w_platforms :: "PlatformView option list"
  w_relativeLocation :: "nat \<Rightarrow> nat \<Rightarrow> double \<times> double \<times> double"

section \<open>Configured link parameters\<close>

definition GuidedMode :: "CommView \<Rightarrow> (double \<times> double) option" where
  "GuidedMode comm = (if cv_medium comm = Some Guided then cv_guidedMode comm else None)"

definition ConfiguredDataRate :: "Afsim \<Rightarrow> CommView \<Rightarrow> Bridge \<Rightarrow> u64 \<times> Bridge" where
  "ConfiguredDataRate A comm b =
     (case map_find (mConfiguredDataRates b) (comm_ptr comm) of
        Some rate \<Rightarrow> (rate, b)
      | None \<Rightarrow>
          (let configured = rc_defaultDataRateBps (mConfig b);
               configured = (case cv_transferRate comm of
                   None \<Rightarrow> configured
                 | Some rate \<Rightarrow> if isfinite rate \<and> d_lt (Fin 0) rate then to_rate A rate else configured);
               configured = max 1 configured in
           (configured, b\<lparr>mConfiguredDataRates := map_put (comm_ptr comm) configured (mConfiguredDataRates b)\<rparr>)))"

definition distance_of :: "Afsim \<Rightarrow> double \<times> double \<times> double \<Rightarrow> double" where
  "distance_of A = (\<lambda>(x, y, z). a_sqrt A (d_add (d_add (d_mul x x) (d_mul y y)) (d_mul z z)))"

definition NativeGuidedDelayMs :: "Afsim \<Rightarrow> AfsimWorld \<Rightarrow> CommView \<Rightarrow> CommView option \<Rightarrow> double" where
  "NativeGuidedDelayMs A w transmitter receiver =
     (case GuidedMode transmitter of
        None \<Rightarrow> Fin (- 1)
      | Some (delayDraw, propagationSpeed) \<Rightarrow>
          (let delaySeconds = d_max (Fin 0) delayDraw;
               delaySeconds =
                 (case (comm_platform transmitter, Option.bind receiver comm_platform) of
                    (Some p, Some q) \<Rightarrow>
                      if d_lt (Fin 0) propagationSpeed
                      then d_add delaySeconds (d_div (distance_of A (w_relativeLocation w p q)) propagationSpeed)
                      else delaySeconds
                  | _ \<Rightarrow> delaySeconds) in
           d_max (Fin 0) (d_mul delaySeconds (Fin 1000))))"

definition ConfiguredDelayMs ::
  "Afsim \<Rightarrow> AfsimWorld \<Rightarrow> RuntimeConfig \<Rightarrow> CommView \<Rightarrow> CommView option \<Rightarrow> double" where
  "ConfiguredDelayMs A w config transmitter receiver =
     (if rc_delayOverride config then rc_defaultDelayMs config
      else
        (let nativeDelayMs = NativeGuidedDelayMs A w transmitter receiver in
         if d_le (Fin 0) nativeDelayMs then nativeDelayMs else rc_defaultDelayMs config))"

definition ConfiguredLossRate :: "RuntimeConfig \<Rightarrow> double" where
  "ConfiguredLossRate config = rc_defaultLossRate config"

definition LinkKind :: "RuntimeConfig \<Rightarrow> CommView \<Rightarrow> string" where
  "LinkKind config comm =
     (case cv_medium comm of
        Some Guided \<Rightarrow> ''wired''
      | Some Unguided \<Rightarrow> ''wireless''
      | _ \<Rightarrow> if rc_linkKind config = ''wired'' then ''wired'' else ''wireless'')"

section \<open>Platforms and devices by name\<close>

record PlatformRecord =
  pr_platform :: PlatformView
  pr_entityId :: string
  pr_alive :: bool

definition platform_record :: "PlatformView \<Rightarrow> PlatformRecord" where
  "platform_record p = \<lparr>pr_platform = p, pr_entityId = show_nat (pv_index p),
     pr_alive = (\<not> pv_broken p \<and> \<not> pv_deleted p)\<rparr>"

definition present :: "'a option list \<Rightarrow> 'a list" where
  "present xs = map the (filter (\<lambda>x. x \<noteq> None) xs)"

definition platform_records :: "AfsimWorld \<Rightarrow> PlatformRecord list" where
  "platform_records w = map platform_record (present (w_platforms w))"

definition comms_of :: "PlatformRecord \<Rightarrow> CommView list" where
  "comms_of r = present (pv_comms (pr_platform r))"

record CommEndpoint =
  ce_entityId :: string
  ce_comm :: CommView

record Directory =
  dir_nameToEntity :: "(string, string) cmap"
  dir_entityAlive :: "(string, bool) cmap"
  dir_commByAddress :: "(string \<times> string, CommView) cmap"
  dir_networkPeers :: "(string, CommEndpoint list) cmap"

definition register_platform :: "PlatformRecord \<Rightarrow> Directory \<Rightarrow> Directory" where
  "register_platform r d =
     d\<lparr>dir_nameToEntity := map_put (pv_name (pr_platform r)) (pr_entityId r) (dir_nameToEntity d),
       dir_entityAlive := map_put (pr_entityId r) (pr_alive r) (dir_entityAlive d)\<rparr>"

definition register_comm :: "PlatformRecord \<Rightarrow> CommView \<Rightarrow> Directory \<Rightarrow> Directory" where
  "register_comm r comm d =
     (let d = d\<lparr>dir_commByAddress :=
            map_put (pv_name (pr_platform r), comm_name comm) comm (dir_commByAddress d)\<rparr> in
      if cv_network comm = [] then d
      else
        (let peers = (case map_find (dir_networkPeers d) (cv_network comm) of Some ps \<Rightarrow> ps | None \<Rightarrow> []) in
         d\<lparr>dir_networkPeers := map_put (cv_network comm)
             (peers @ [\<lparr>ce_entityId = pr_entityId r, ce_comm = comm\<rparr>]) (dir_networkPeers d)\<rparr>))"

definition directory :: "PlatformRecord list \<Rightarrow> Directory" where
  "directory rs =
     fold (\<lambda>r. fold (register_comm r) (comms_of r)) rs
       (fold register_platform rs
         \<lparr>dir_nameToEntity = [], dir_entityAlive = [], dir_commByAddress = [], dir_networkPeers = []\<rparr>)"

section \<open>Peers of a device\<close>

record PeerEndpoint =
  pe_comm :: "CommView option"
  pe_ready :: bool

type_synonym peers = "(string, PeerEndpoint) cmap"

definition remote_ready :: "CommView option \<Rightarrow> bool" where
  "remote_ready remote = (case remote of Some c \<Rightarrow> cv_turnedOn c \<and> cv_canReceive c | None \<Rightarrow> False)"

definition add_peer :: "string \<Rightarrow> CommView option \<Rightarrow> peers \<Rightarrow> peers" where
  "add_peer entityId remote ps =
     (let endpoint = (case map_find ps entityId of Some e \<Rightarrow> e | None \<Rightarrow> \<lparr>pe_comm = None, pe_ready = False\<rparr>) in
      map_put entityId
        \<lparr>pe_comm = (if pe_comm endpoint = None then remote else pe_comm endpoint),
         pe_ready = (pe_ready endpoint \<or> remote_ready remote)\<rparr> ps)"

definition link_peer :: "Directory \<Rightarrow> PlatformRecord \<Rightarrow> string \<times> string \<Rightarrow> peers \<Rightarrow> peers" where
  "link_peer d r link ps =
     (case map_find (dir_nameToEntity d) (fst link) of
        Some entityId \<Rightarrow>
          if entityId \<noteq> pr_entityId r then add_peer entityId (map_find (dir_commByAddress d) link) ps else ps
      | None \<Rightarrow> ps)"

definition network_peer :: "PlatformRecord \<Rightarrow> CommEndpoint \<Rightarrow> peers \<Rightarrow> peers" where
  "network_peer r peer ps =
     (if ce_entityId peer \<noteq> pr_entityId r then add_peer (ce_entityId peer) (Some (ce_comm peer)) ps else ps)"

definition peers_of :: "Directory \<Rightarrow> PlatformRecord \<Rightarrow> CommView \<Rightarrow> peers" where
  "peers_of d r comm =
     (let ps = fold (link_peer d r) (cv_linkPairs comm) [] in
      if cv_network comm = [] then ps
      else
        (case map_find (dir_networkPeers d) (cv_network comm) of
           Some found \<Rightarrow> fold (network_peer r) found ps
         | None \<Rightarrow> ps))"

section \<open>The state collected\<close>

text \<open>Counts and sums since the last step become the last loss rate and delay.\<close>

definition settle :: "LinkObservation \<Rightarrow> LinkObservation" where
  "settle ob =
     (let ob = (if 0 < ob_completed ob
                then ob\<lparr>ob_lastLossRate := d_min (Fin 1)
                         (d_div (d_of_nat (unat (ob_failures ob))) (d_of_nat (unat (ob_completed ob)))),
                       ob_hasLoss := True, ob_completed := 0, ob_failures := 0\<rparr>
                else ob) in
      if 0 < ob_delaySamples ob
      then ob\<lparr>ob_lastDelayMs := d_div (ob_delayTotalMs ob) (d_of_nat (unat (ob_delaySamples ob))),
             ob_hasDelay := True, ob_delayTotalMs := Fin 0, ob_delaySamples := 0\<rparr>
      else ob)"

type_synonym up_links = "(string \<times> string, unit) cmap"

definition collect_device ::
  "Afsim \<Rightarrow> AfsimWorld \<Rightarrow> Directory \<Rightarrow> PlatformRecord \<Rightarrow> CommView \<Rightarrow> u64 \<Rightarrow> string \<times> PeerEndpoint \<Rightarrow>
     DeviceConfig list \<times> up_links \<times> Bridge \<Rightarrow> DeviceConfig list \<times> up_links \<times> Bridge" where
  "collect_device A w d r comm aggregateDataRate = (\<lambda>(peerEntityId, endpoint) (devices, upLinks, b).
     (let config = mConfig b;
          (ob, b) = (case pe_comm endpoint of
              None \<Rightarrow> (None, b)
            | Some peer \<Rightarrow>
                (let key = (comm_ptr comm, comm_ptr peer); ob = settle (observation b key) in
                 (Some ob, put_observation key ob b)));
          dataRate = (case ob of Some ob' \<Rightarrow> if ob_hasDataRate ob' then ob_lastDataRateBps ob' else aggregateDataRate
            | None \<Rightarrow> aggregateDataRate);
          configuredDelay = ConfiguredDelayMs A w config comm (pe_comm endpoint);
          delay = (case ob of
              Some ob' \<Rightarrow> if ob_hasDelay ob' \<and> \<not> rc_delayOverride config then ob_lastDelayMs ob' else configuredDelay
            | None \<Rightarrow> configuredDelay);
          loss = (case ob of
              Some ob' \<Rightarrow> if ob_hasLoss ob' \<and> \<not> rc_lossOverride config then ob_lastLossRate ob' else ConfiguredLossRate config
            | None \<Rightarrow> ConfiguredLossRate config);
          up = (pr_alive r \<and> map_find (dir_entityAlive d) peerEntityId = Some True \<and> cv_turnedOn comm \<and>
            cv_canSend comm \<and> pe_ready endpoint);
          device = \<lparr>dev_deviceId = comm_name comm @ ''-to-'' @ peerEntityId, dev_peerEntityId = peerEntityId,
            dev_kind = LinkKind config comm, dev_dataRateBps = max 1 dataRate, dev_delayMs = delay,
            dev_lossRate = loss, dev_linkState = (if up then ''UP'' else ''DOWN'')\<rparr>;
          upLinks = (if up then map_put (pr_entityId r, peerEntityId) () upLinks else upLinks) in
      (devices @ [device], upLinks, b)))"

definition collect_comm ::
  "Afsim \<Rightarrow> AfsimWorld \<Rightarrow> Directory \<Rightarrow> PlatformRecord \<Rightarrow> CommView \<Rightarrow>
     DeviceConfig list \<times> up_links \<times> Bridge \<Rightarrow> DeviceConfig list \<times> up_links \<times> Bridge" where
  "collect_comm A w d r comm = (\<lambda>(devices, upLinks, b).
     (let (configuredDataRate, b) = ConfiguredDataRate A comm b;
          aggregateDataRate =
            (if isfinite (cv_lastDataRate comm) \<and> d_lt (Fin 0) (cv_lastDataRate comm)
             then to_rate A (cv_lastDataRate comm) else configuredDataRate) in
      fold (collect_device A w d r comm aggregateDataRate) (peers_of d r comm) (devices, upLinks, b)))"

text \<open>The libraries' functions as the coordinates use them, and the frame of the first platform.\<close>

definition geo_arith :: "Afsim \<Rightarrow> double arith" where
  "geo_arith A = double_arith (a_sin A) (a_cos A) (a_sqrt A)"

definition location_of :: "PlatformView \<Rightarrow> double GeoPoint" where
  "location_of p =
     (case pv_locationLLA p of (latitude, longitude, altitude) \<Rightarrow>
        \<lparr>latitudeDeg = latitude, longitudeDeg = longitude, altitudeM = altitude\<rparr>)"

definition locate :: "Afsim \<Rightarrow> PlatformView \<Rightarrow> Bridge \<Rightarrow> Position result \<times> Bridge" where
  "locate A p b =
     (let point = location_of p in
      case (case mEnuFrame b of Some frame \<Rightarrow> Inr frame | None \<Rightarrow> new_frame (geo_arith A) point) of
        Inl e \<Rightarrow> (Inl e, b)
      | Inr frame \<Rightarrow>
          (rbind (ToEnu (geo_arith A) frame point) (\<lambda>v. Inr (to_position v)), b\<lparr>mEnuFrame := Some frame\<rparr>))"

definition velocity_of :: "PlatformView \<Rightarrow> Velocity" where
  "velocity_of p =
     (case pv_velocityNED p of (north, east, down) \<Rightarrow> \<lparr>vxMps = east, vyMps = north, vzMps = d_neg down\<rparr>)"

definition collect_entity ::
  "Afsim \<Rightarrow> AfsimWorld \<Rightarrow> Directory \<Rightarrow> PlatformRecord \<Rightarrow> up_links \<times> Bridge \<Rightarrow>
     ((EntityState \<times> up_links) result \<times> Bridge) option" where
  "collect_entity A w d r = (\<lambda>(upLinks, b).
     (case locate A (pr_platform r) b of
        (Inl e, b) \<Rightarrow> Some (Inl e, b)
      | (Inr position, b) \<Rightarrow>
          (case Degrees (pv_heading (pr_platform r)) of
             None \<Rightarrow> None
           | Some headingDeg \<Rightarrow>
               (let (devices, upLinks, b) = fold (collect_comm A w d r) (comms_of r) ([], upLinks, b) in
                Some (Inr (empty_entity\<lparr>ent_entityId := pr_entityId r,
                    ent_businessNodeId := pv_name (pr_platform r), ent_position := position,
                    ent_velocity := velocity_of (pr_platform r), ent_headingDeg := headingDeg,
                    ent_alive := pr_alive r, ent_devices := devices\<rparr>, upLinks), b)))))"

fun collect_entities ::
  "Afsim \<Rightarrow> AfsimWorld \<Rightarrow> Directory \<Rightarrow> PlatformRecord list \<Rightarrow> up_links \<times> Bridge \<Rightarrow>
     ((EntityState list \<times> up_links) result \<times> Bridge) option" where
  "collect_entities A w d [] (upLinks, b) = Some (Inr ([], upLinks), b)"
| "collect_entities A w d (r # rs) (upLinks, b) =
     (case collect_entity A w d r (upLinks, b) of
        None \<Rightarrow> None
      | Some (Inl e, b) \<Rightarrow> Some (Inl e, b)
      | Some (Inr (entity, upLinks), b) \<Rightarrow>
          (case collect_entities A w d rs (upLinks, b) of
             None \<Rightarrow> None
           | Some (Inl e, b) \<Rightarrow> Some (Inl e, b)
           | Some (Inr (entities, upLinks), b) \<Rightarrow> Some (Inr (entity # entities, upLinks), b)))"

definition collect_flow :: "Directory \<Rightarrow> up_links \<Rightarrow> ObservedFlow \<Rightarrow> FlowConfig" where
  "collect_flow d upLinks observed =
     \<lparr>flow_flowId = of_flowId observed, flow_sourceEntityId = of_sourceEntityId observed,
      flow_targetEntityId = of_targetEntityId observed, flow_packetSizeBytes = of_packetSizeBytes observed,
      flow_intervalMs = of_intervalMs observed, flow_durationMs = of_durationMs observed,
      flow_active = (map_find (dir_entityAlive d) (of_sourceEntityId observed) = Some True \<and>
        map_find (dir_entityAlive d) (of_targetEntityId observed) = Some True \<and>
        map_has upLinks (of_sourceEntityId observed, of_targetEntityId observed))\<rparr>"

definition forget_old_times :: "double \<Rightarrow> Bridge \<Rightarrow> Bridge" where
  "forget_old_times simTime b =
     (let cutoff = d_sub simTime (d_max (Fin 5) (d_mul (rc_intervalSeconds (mConfig b)) (Fin 5))) in
      b\<lparr>mTransmitTimes := filter (\<lambda>(key, t). \<not> d_lt t cutoff) (mTransmitTimes b)\<rparr>)"

definition CollectState ::
  "Afsim \<Rightarrow> AfsimWorld \<Rightarrow> double \<Rightarrow> Bridge \<Rightarrow> ((EntityState list \<times> FlowConfig list) result \<times> Bridge) option" where
  "CollectState A w simTime b =
     (let platforms = platform_records w; d = directory platforms in
      case collect_entities A w d platforms ([], b) of
        None \<Rightarrow> None
      | Some (Inl e, b) \<Rightarrow> Some (Inl e, b)
      | Some (Inr (entities, upLinks), b) \<Rightarrow>
          Some (Inr (entities, map (\<lambda>entry. collect_flow d upLinks (snd entry)) (mObservedFlows b)),
            forget_old_times simTime b))"

section \<open>A simulation step\<close>

definition submit_code :: "StateSubmitResult \<Rightarrow> nat" where
  "submit_code r = (case r of InitialQueued \<Rightarrow> 0 | DeltaQueued \<Rightarrow> 1 | ResyncQueued \<Rightarrow> 2 | NoChange \<Rightarrow> 3)"

text \<open>The controller applies the waiting effects with the extension as their sink.\<close>

definition apply_effects :: "Bridge \<Rightarrow> nat \<times> Bridge" where
  "apply_effects b =
     (let ((applied, l, reports), controller) =
            ApplyPendingEffects ApplyNetworkEffect (log_lines b) (mController b) in
      (applied, b\<lparr>mController := controller,
         log_lines := l @ map (\<lambda>(d, e). effect_error_line d e) reports\<rparr>))"

definition tick_line :: "double \<Rightarrow> EntityState list \<Rightarrow> FlowConfig list \<Rightarrow> nat \<Rightarrow> bool \<Rightarrow> StateSubmitResult \<Rightarrow> string" where
  "tick_line simTime entities flows applied online r =
     ''TICK sim_time='' @ show_fixed 3 simTime @ '' entities='' @ show_nat (length entities)
     @ '' flows='' @ show_nat (length flows)
     @ '' policies='' @ show_nat (sum_list (map (\<lambda>e. length (ent_effectPolicies e)) entities))
     @ '' applied='' @ show_nat applied @ '' connected='' @ (if online then ''1'' else ''0'')
     @ '' submit='' @ show_nat (submit_code r)"

definition submit_state ::
  "Afsim \<Rightarrow> double \<Rightarrow> nat \<Rightarrow> EntityState list \<Rightarrow> FlowConfig list \<Rightarrow> Bridge \<Rightarrow> unit result \<times> Bridge" where
  "submit_state A simTime applied entities flows b =
     (let b = b\<lparr>mTick := mTick b + 1\<rparr>;
          requestId = mRunId b @ ''-'' @ show_nat (unat (mTick b));
          timestampMs = cast_u64 A (d_mul (d_max (Fin 0) simTime) (Fin 1000));
          (r, controller) = SubmitCurrentState (client_config (mConfig b)) requestId timestampMs entities flows
            (mController b);
          b = b\<lparr>mController := controller\<rparr> in
      case r of
        Inl e \<Rightarrow> (Inl e, b)
      | Inr outcome \<Rightarrow>
          (Inr (),
           if rc_traceTicks (mConfig b) \<or> mTick b \<le> 2 \<or> 0 < applied
           then AppendLog (tick_line simTime entities flows applied (ControllerIsConnected controller) outcome) b
           else b))"

text \<open>
  The step in two parts, between which the worker thread may run: the effects, and then the
  collection, which leaves the controller alone, with the submission.
\<close>

definition collect_and_submit :: "Afsim \<Rightarrow> AfsimWorld \<Rightarrow> double \<Rightarrow> nat \<Rightarrow> Bridge \<Rightarrow> (unit result \<times> Bridge) option" where
  "collect_and_submit A w simTime applied b =
     (case CollectState A w simTime b of
        None \<Rightarrow> None
      | Some (Inl e, b) \<Rightarrow> Some (Inl e, b)
      | Some (Inr (entities, flows), b) \<Rightarrow> Some (submit_state A simTime applied entities flows b))"

definition Tick :: "Afsim \<Rightarrow> AfsimWorld \<Rightarrow> double \<Rightarrow> Bridge \<Rightarrow> (unit result \<times> Bridge) option" where
  "Tick A w simTime b =
     (let (applied, b) = apply_effects b in collect_and_submit A w simTime applied b)"

text \<open>
  The recurring event: the time it is scheduled for next, or \<^term>\<open>None\<close> when it is deleted.
\<close>

definition tick_error_line :: "exn \<Rightarrow> string" where
  "tick_error_line e = ''ERROR tick='' @ (if e = Unknown_Exception then ''unknown'' else what e)"

definition report_error :: "unit result \<Rightarrow> Bridge \<Rightarrow> Bridge" where
  "report_error r b = (case r of Inr _ \<Rightarrow> b | Inl e \<Rightarrow> AppendLog (tick_error_line e) b)"

definition recurring_event :: "Afsim \<Rightarrow> AfsimWorld \<Rightarrow> double \<Rightarrow> Bridge \<Rightarrow> (double option \<times> Bridge) option" where
  "recurring_event A w time b =
     (if mStopping b then Some (None, b)
      else
        (case Tick A w time b of
           None \<Rightarrow> None
         | Some (r, b) \<Rightarrow>
             (let b = report_error r b in
              Some (if mStopping b then None else Some (d_add time (rc_intervalSeconds (mConfig b))), b))))"

section \<open>Start and end of a simulation\<close>

text \<open>The time of the first step, and the state.\<close>

definition StartExtension :: "double \<Rightarrow> Bridge \<Rightarrow> double \<times> Bridge" where
  "StartExtension simTime b =
     (let b = b\<lparr>mStopping := False, mCallbacks := True, mController := ControllerStart (mController b)\<rparr>;
          b = AppendLog (''START host='' @ rc_host (mConfig b) @ '' port='' @ show_nat (unat (rc_port (mConfig b)))) b in
      (d_add simTime (fl (1 / 10 ^ 9)), b))"

definition CompleteExtension :: "double \<Rightarrow> Bridge \<Rightarrow> Bridge" where
  "CompleteExtension simTime b =
     (let b = b\<lparr>mStopping := True, mCallbacks := False, mController := ControllerStop (mController b)\<rparr> in
      AppendLog (''COMPLETE sim_time='' @ show_fixed 3 simTime @ '' ticks='' @ show_nat (unat (mTick b))) b)"

end
