(* ===== verification/ExtensionConfigFacts.thy ===== *)
theory ExtensionConfigFacts
  imports ExtensionConfig
begin

text \<open>
  What \<open>ExtensionConfig\<close> guarantees: when the heading conversion ends and what it then returns,
  that the conversion to milliseconds is defined, and that every environment gives a valid
  configuration.
\<close>

section \<open>Rounding near 360\<close>

lemma rnd_error_small:
  assumes "0 \<le> x" and "x < 2 ^ 53"
  shows "\<bar>rnd x - x\<bar> \<le> 1 / 2"
proof (cases "x = 0")
  case False
  let ?u = "2 powi grid_exp x :: rat"
  have "x < 2 powi 53" using assms(2) by (simp add: power_int_def)
  then have "grid_exp x \<le> 0" using ilog2_less [of x 53] assms(1) False by (simp add: grid_exp_def)
  then have u: "?u \<le> 1" using powi2_mono [of "grid_exp x" 0] by simp
  have "rnd x - x = (of_int (rhe (x / ?u)) - x / ?u) * ?u" by (simp add: rnd_def Let_def left_diff_distrib)
  then have "\<bar>rnd x - x\<bar> = \<bar>of_int (rhe (x / ?u)) - x / ?u\<bar> * ?u" by (simp add: abs_mult)
  also have "\<dots> \<le> 1 / 2 * 1" using rhe_error [of "x / ?u"] u by (intro mult_mono) auto
  finally show ?thesis by simp
qed simp

lemma representable_360: "representable 360"
  using representable_nat [of 360] by simp

lemma small_below: "(x :: rat) < 2 ^ 52 \<Longrightarrow> x \<le> of_nat (2 ^ 52)"
  by simp

lemma fl_small:
  assumes "0 \<le> x" and "x \<le> 2 ^ 52"
  shows "fl x = Fin (rnd x)" and "0 \<le> rnd x" and "rnd x \<le> 2 ^ 52" and "\<bar>rnd x - x\<bar> \<le> 1 / 2"
proof -
  have r: "representable (2 ^ 52)" using representable_nat [of "2 ^ 52"] by simp
  have "(2 :: rat) ^ 52 < 2 ^ 1024" by simp
  from fl_bounded [OF assms r this] show "fl x = Fin (rnd x)" "0 \<le> rnd x" "rnd x \<le> 2 ^ 52" by simp_all
  have "x < 2 ^ 53" using assms(2) by (rule le_less_trans) simp
  with assms(1) show "\<bar>rnd x - x\<bar> \<le> 1 / 2" by (rule rnd_error_small)
qed

section \<open>The loops end\<close>

definition in_circle :: "double \<Rightarrow> bool" where
  "in_circle d \<longleftrightarrow> isfinite d \<and> 0 \<le> dval d \<and> dval d < 360"

lemma degrees_down_stop: "\<not> d_le (Fin 360) v \<Longrightarrow> degrees_down v = Some v"
  by (simp add: degrees_down.simps)

lemma degrees_up_stop: "\<not> d_lt v (Fin 0) \<Longrightarrow> degrees_up v = Some v"
  by (simp add: degrees_up.simps)

lemma degrees_down_in_circle: "in_circle v \<Longrightarrow> degrees_down v = Some v"
  by (rule degrees_down_stop) (auto simp: in_circle_def d_le_finite)

lemma degrees_down_ends:
  assumes "0 \<le> r" and "r \<le> 2 ^ 52"
  shows "\<exists>d. degrees_down (Fin r) = Some d \<and> in_circle d"
  using assms
proof (induction "nat \<lfloor>r\<rfloor>" arbitrary: r rule: less_induct)
  case less
  show ?case
  proof (cases "r < 360")
    case True
    then show ?thesis using less.prems degrees_down_in_circle [of "Fin r"] by (auto simp: in_circle_def)
  next
    case False
    then have x: "0 \<le> r - 360" "r - 360 \<le> 2 ^ 52" using less.prems by simp_all
    have step: "degrees_down (Fin r) = degrees_down (Fin (rnd (r - 360)))"
      using False fl_small(1) [OF x] by (subst degrees_down.simps) (simp add: d_le_finite d_sub_def)
    have "rnd (r - 360) \<le> r - 359" using fl_small(4) [OF x] by linarith
    then have "\<lfloor>rnd (r - 360)\<rfloor> < \<lfloor>r\<rfloor>" by linarith
    moreover have "0 \<le> \<lfloor>rnd (r - 360)\<rfloor>" using fl_small(2) [OF x] by simp
    ultimately have "nat \<lfloor>rnd (r - 360)\<rfloor> < nat \<lfloor>r\<rfloor>" by linarith
    from less.hyps [OF this fl_small(2,3) [OF x]] show ?thesis by (simp add: step)
  qed
qed

lemma degrees_up_ends:
  assumes "0 < r" and "r \<le> 2 ^ 52"
  shows "\<exists>d. degrees_up (Fin (- r)) = Some d \<and> isfinite d \<and> 0 \<le> dval d \<and> dval d \<le> 360"
  using assms
proof (induction "nat \<lfloor>r\<rfloor>" arbitrary: r rule: less_induct)
  case less
  show ?case
  proof (cases "360 < r")
    case False
    then have x: "0 \<le> 360 - r" "360 - r \<le> 2 ^ 52" using less.prems by simp_all
    have "rnd (360 - r) \<le> 360"
      using rnd_mono [of "360 - r" 360] rnd_representable [OF representable_360] x(1) less.prems by simp
    moreover have "degrees_up (Fin (- r)) = degrees_up (Fin (rnd (360 - r)))"
      using less.prems fl_small(1) [OF x] by (subst degrees_up.simps) simp
    ultimately show ?thesis using fl_small(2) [OF x] degrees_up_stop [of "Fin (rnd (360 - r))"] by simp
  next
    case True
    then have x: "0 \<le> r - 360" "r - 360 \<le> 2 ^ 52" using less.prems by simp_all
    have "fl (360 - r) = d_neg (Fin (rnd (r - 360)))" using True fl_neg [of "360 - r"] fl_small(1) [OF x] by simp
    then have step: "degrees_up (Fin (- r)) = degrees_up (d_neg (Fin (rnd (r - 360))))"
      using less.prems by (subst degrees_up.simps) simp
    show ?thesis
    proof (cases "rnd (r - 360) = 0")
      case True
      then show ?thesis by (simp add: step degrees_up_stop)
    next
      case False
      then have pos: "0 < rnd (r - 360)" using fl_small(2) [OF x] by simp
      have "rnd (r - 360) \<le> r - 359" using fl_small(4) [OF x] by linarith
      then have "\<lfloor>rnd (r - 360)\<rfloor> < \<lfloor>r\<rfloor>" by linarith
      moreover have "0 \<le> \<lfloor>rnd (r - 360)\<rfloor>" using fl_small(2) [OF x] by simp
      ultimately have "nat \<lfloor>rnd (r - 360)\<rfloor> < nat \<lfloor>r\<rfloor>" by linarith
      from less.hyps [OF this pos fl_small(3) [OF x]] False show ?thesis by (simp add: step)
    qed
  qed
qed

lemma degrees_end:
  assumes "isfinite v" and "\<bar>dval v\<bar> \<le> 2 ^ 52"
  shows "\<exists>d. Option.bind (degrees_up v) degrees_down = Some d \<and> in_circle d"
proof -
  have down: "\<exists>d. degrees_down u = Some d \<and> in_circle d"
    if "isfinite u" "0 \<le> dval u" "dval u \<le> 2 ^ 52" for u
  proof (cases u)
    case (Fin r)
    with that show ?thesis using degrees_down_ends [of r] by simp
  qed (use that degrees_down_in_circle [of u] in \<open>auto simp: in_circle_def\<close>)
  show ?thesis
  proof (cases "dval v < 0")
    case True
    then obtain r where v: "v = Fin (- r)" "0 < r" "r \<le> 2 ^ 52"
      using assms by (cases v) (auto intro: that [of "- dval v"])
    obtain u where u: "degrees_up v = Some u" "isfinite u" "0 \<le> dval u" "dval u \<le> 360"
      using degrees_up_ends [OF v(2,3)] v(1) by auto
    have "dval u \<le> 2 ^ 52" using u(4) by (rule order_trans) simp
    with down [OF u(2,3)] u(1) show ?thesis by simp
  next
    case False
    then have "\<not> d_lt v (Fin 0)" using assms by (simp add: d_lt_finite)
    with down [of v] assms False show ?thesis by (simp add: degrees_up_stop)
  qed
qed

section \<open>The loops that do not end\<close>

text \<open>A rounded value from \<open>2 ^ 63\<close> on is too coarse to notice a turn of 360.\<close>

lemma rnd_absorbs_turn:
  assumes "0 \<le> q" and "2 ^ 63 \<le> rnd q"
  shows "rnd (rnd q - 360) = rnd q"
proof -
  define r where "r = rnd q"
  have "q \<noteq> 0" using assms(2) rnd_0 by (metis zero_less_power not_le zero_less_numeral)
  then have q: "0 < q" using assms(1) by simp
  define e where "e = grid_exp q"
  define u where "u = (2 :: rat) powi grid_exp (r - 360)"
  have big: "(2 :: rat) powi 62 \<le> r - 360" using assms(2) by (simp add: r_def power_int_def)
  have "(2 :: rat) powi 62 < 2 powi (ilog 2 (r - 360) + 1)"
    using ilog_bounds(2) [of "r - 360" 2] big less_le_trans [OF powi2_pos big] by (simp del: powi2_pos)
  then have "62 < ilog 2 (r - 360) + 1" by (simp only: powi2_less_iff)
  then have grid: "10 \<le> grid_exp (r - 360)" by (simp add: grid_exp_def)
  have "2 powi 53 < q"
  proof (rule ccontr)
    assume "\<not> 2 powi 53 < q"
    then have "rnd q \<le> rnd (2 ^ 53)" using rnd_mono assms(1) by (simp add: power_int_def)
    moreover have "rnd (2 ^ 53) = (2 :: rat) ^ 53"
      using rnd_representable [OF representableI [of 1 53]] by (simp add: power_int_def)
    moreover have "(2 :: rat) ^ 53 < 2 ^ 63" by simp
    ultimately show False using assms(2) by linarith
  qed
  then have "53 \<le> ilog 2 q"
    using ilog_bounds(2) [of q 2] q powi2_less_iff [of 53 "ilog 2 q + 1"] by simp
  then have e: "e = ilog 2 q - 52" by (simp add: e_def grid_exp_def)
  have "q \<le> 2 powi (ilog 2 q + 1)" using ilog_bounds(2) [of q 2] q by simp
  then have "r \<le> 2 powi (ilog 2 q + 1)" unfolding r_def using e e_def by (intro rnd_le_power) simp_all
  then have "r - 360 < 2 powi (ilog 2 q + 1)" by simp
  moreover have "0 < r - 360" using big less_le_trans [OF powi2_pos] by blast
  ultimately have "ilog 2 (r - 360) < ilog 2 q + 1" by (intro ilog2_less)
  then have "grid_exp (r - 360) \<le> e" using e grid by (simp add: grid_exp_def)
  moreover have "r = of_int (rhe (q / 2 powi e)) * 2 powi e" by (simp add: r_def e_def rnd_def Let_def)
  ultimately obtain k where k: "(2 :: rat) powi (e - grid_exp (r - 360)) = of_int k"
    "r = of_int (rhe (q / 2 powi e)) * 2 powi e"
    using powi2_is_int [of "e - grid_exp (r - 360)"] by auto
  have "(2 :: rat) powi e = of_int k * u"
    by (simp add: u_def flip: power_int_add k(1))
  from k(2) [unfolded this] obtain n where n: "r = of_int (n * k) * u"
    by (metis mult.assoc of_int_mult)
  define m where "m = n * k"
  have n: "r = of_int m * u" by (simp only: n m_def)
  have "(2 :: rat) powi 10 \<le> u" unfolding u_def using grid by (rule powi2_mono)
  then have u: "1024 \<le> u" by simp
  have "\<bar>of_int (rhe ((r - 360) / u)) - (r - 360) / u\<bar> \<le> 1 / 2" by (rule rhe_error)
  moreover have "(r - 360) / u = of_int m - 360 / u" using u by (simp add: n diff_divide_distrib)
  moreover have "0 \<le> 360 / u" "360 / u < 1 / 2" using u by (simp_all add: field_simps)
  ultimately have "\<bar>of_int (rhe ((r - 360) / u)) - (of_int m :: rat)\<bar> < 1" by linarith
  then have "rhe ((r - 360) / u) = m" by linarith
  moreover have "rnd (r - 360) = of_int (rhe ((r - 360) / u)) * u" by (simp add: rnd_def Let_def u_def)
  ultimately have "rnd (r - 360) = r" using n by simp
  then show ?thesis by (simp only: r_def)
qed

text \<open>Values that a turn does not change: the infinities and the rounded values from \<open>2 ^ 63\<close>.\<close>

definition turn_absorbing :: "double \<Rightarrow> bool" where
  "turn_absorbing v \<longleftrightarrow> v = PInf \<or> v = MInf \<or>
     (\<exists>q. 0 \<le> q \<and> 2 ^ 63 \<le> rnd q \<and> rnd q < 2 ^ 1024 \<and> (v = Fin (rnd q) \<or> v = Fin (- rnd q)))"

lemma turn_absorbed:
  assumes "turn_absorbing v"
  shows "d_lt v (Fin 0) \<Longrightarrow> d_add v (Fin 360) = v"
    and "d_le (Fin 360) v \<Longrightarrow> d_sub v (Fin 360) = v" and "d_lt v (Fin 0) \<or> d_le (Fin 360) v"
proof -
  have 1: "v = PInf \<or> v = MInf \<or> (\<exists>r. 360 < r \<and> fl (r - 360) = Fin r \<and> (v = Fin r \<or> v = Fin (- r)))"
  proof -
    have "360 < rnd q \<and> fl (rnd q - 360) = Fin (rnd q)" if "0 \<le> q" "2 ^ 63 \<le> rnd q" "rnd q < 2 ^ 1024" for q
    proof -
      have "(360 :: rat) < 2 ^ 63" by simp
      with that(2) have "360 < rnd q" by (rule less_le_trans [rotated])
      then show ?thesis using rnd_absorbs_turn [OF that(1,2)] that(3) by (auto simp: fl_def Let_def)
    qed
    then show ?thesis using assms unfolding turn_absorbing_def by blast
  qed
  then show "d_lt v (Fin 0) \<Longrightarrow> d_add v (Fin 360) = v"
  proof (elim disjE exE conjE)
    fix r assume r: "360 < r" "fl (r - 360) = Fin r" "v = Fin (- r)"
    then show "d_add v (Fin 360) = v" using fl_neg [of "360 - r"] by simp
  qed simp_all
  from 1 show "d_le (Fin 360) v \<Longrightarrow> d_sub v (Fin 360) = v"
    by (auto simp: d_sub_def d_le_finite)
  from 1 show "d_lt v (Fin 0) \<or> d_le (Fin 360) v"
    by (auto simp: d_le_def)
qed

lemma degrees_up_result: "degrees_up v = Some d \<Longrightarrow> turn_absorbing v \<Longrightarrow> d = v \<and> \<not> d_lt v (Fin 0)"
proof (rule degrees_up.raw_induct [where P = "\<lambda>v d. turn_absorbing v \<longrightarrow> d = v \<and> \<not> d_lt v (Fin 0)", rule_format])
  fix f v d
  assume IH: "\<And>v d. f v = Some d \<Longrightarrow> turn_absorbing v \<Longrightarrow> d = v \<and> \<not> d_lt v (Fin 0)"
    and step: "(if d_lt v (Fin 0) then f (d_add v (Fin 360)) else Some v) = Some d" and a: "turn_absorbing v"
  then show "d = v \<and> \<not> d_lt v (Fin 0)"
    using turn_absorbed(1) [OF a] by (cases "d_lt v (Fin 0)") auto
qed

lemma degrees_down_result: "degrees_down v = Some d \<Longrightarrow> turn_absorbing v \<Longrightarrow> \<not> d_le (Fin 360) v"
proof (rule degrees_down.raw_induct [where P = "\<lambda>v d. turn_absorbing v \<longrightarrow> \<not> d_le (Fin 360) v", rule_format])
  fix f v and d :: double
  assume IH: "\<And>v d. f v = Some d \<Longrightarrow> turn_absorbing v \<Longrightarrow> \<not> d_le (Fin 360) v"
    and step: "(if d_le (Fin 360) v then f (d_sub v (Fin 360)) else Some v) = Some d" and a: "turn_absorbing v"
  then show "\<not> d_le (Fin 360) v"
    using turn_absorbed(2) [OF a] by (cases "d_le (Fin 360) v") auto
qed

lemma degrees_diverge:
  assumes "turn_absorbing v"
  shows "Option.bind (degrees_up v) degrees_down = None"
  using degrees_up_result [OF _ assms] degrees_down_result [OF _ assms] turn_absorbed(3) [OF assms]
  by (cases "degrees_up v"; cases "degrees_down v") auto

text \<open>
  C37. The heading conversion ends when the number of degrees is finite and at most \<open>2 ^ 52\<close> in
  magnitude, with a finite heading of at least 0 and below 360, the number itself when it
  already lies there. For an infinite heading, and for a rounded number of degrees of \<open>2 ^ 63\<close>
  or more in magnitude, one of its loops never ends, and so the simulation step does not.
\<close>

theorem Degrees_ends:
  "let v = d_div (d_mul radians (Fin 180)) (fl Pi_literal) in
    (isfinite v \<and> \<bar>dval v\<bar> \<le> 2 ^ 52 \<longrightarrow> (\<exists>d. Degrees radians = Some d \<and> in_circle d)) \<and>
    (in_circle v \<longrightarrow> Degrees radians = Some v) \<and>
    (turn_absorbing v \<longrightarrow> Degrees radians = None)"
proof -
  have "Option.bind (degrees_up v) degrees_down = Some v" if "in_circle v" for v
    using that degrees_down_in_circle [OF that] degrees_up_stop [of v]
    by (simp add: in_circle_def d_lt_finite)
  then show ?thesis
    unfolding Degrees_def Let_def using degrees_end degrees_diverge by blast
qed

lemma degrees_of_zero: "d_div (d_mul (Fin 0) (Fin 180)) (fl Pi_literal) = Fin 0"
  by (simp add: Pi_literal_def double_eval)

lemma degrees_of_infinity: "d_div (d_mul PInf (Fin 180)) (fl Pi_literal) = PInf"
  by (simp add: Pi_literal_def double_eval)

theorem Degrees_ends_witness: "Degrees (Fin 0) = Some (Fin 0) \<and> Degrees PInf = None"
  using Degrees_ends [of "Fin 0", unfolded degrees_of_zero Let_def]
    Degrees_ends [of PInf, unfolded degrees_of_infinity Let_def]
  by (simp add: in_circle_def turn_absorbing_def)

section \<open>Milliseconds\<close>

lemma d_to_u32_of_int:
  assumes "0 \<le> n" and "n < 2 ^ 32"
  shows "d_to_u32 (Fin (of_int n)) = Some (of_int n)"
proof -
  have "(of_int n :: rat) < of_int (2 ^ 32)" using assms(2) by (simp only: of_int_less_iff)
  then have "to_unsigned (2 ^ 32) (Fin (of_int n)) = Some (nat n)"
    using assms(1) by (simp add: to_unsigned_def)
  then show ?thesis using assms(1) by (simp add: d_to_u32_def)
qed

lemma rounded_milliseconds:
  assumes "isfinite x" and "dval x < 4294967295"
  shows "d_to_u32 (d_max (Fin 0) (d_round x)) = Some (of_int (max 0 \<lfloor>dval x + 1 / 2\<rfloor>))"
proof (cases "d_lt (Fin 0) (d_round x)")
  case True
  moreover obtain r where r: "x = Fin r" using True assms(1) by (cases x) auto
  ultimately have x: "x = Fin r" "\<not> r < 0" "0 < \<lfloor>r + 1 / 2\<rfloor>"
    by (auto simp: Let_def split: if_splits)
  have "\<lfloor>r + 1 / 2\<rfloor> < 2 ^ 32" using assms(2) x(1) by (simp add: floor_less_iff)
  with x True show ?thesis using d_to_u32_of_int [of "\<lfloor>r + 1 / 2\<rfloor>"] by (simp add: d_max_def)
next
  case False
  then have "\<lfloor>dval x + 1 / 2\<rfloor> \<le> 0"
    using assms(1) by (cases x) (auto simp: Let_def not_less split: if_splits)
  with False show ?thesis using d_to_u32_of_int [of 0] by (simp add: d_max_def)
qed

lemma max_u32: "max a b = (if unat a < unat b then b else a)" for a b :: u32
  by (auto simp: max_def word_le_nat_alt word_unat_eq_iff)

lemma Milliseconds_value:
  "let ms = d_mul seconds (Fin 1000) in
    unat (Milliseconds seconds minimum) =
      (if \<not> isfinite ms then unat minimum
       else if 4294967295 \<le> dval ms then 4294967295
       else max (unat minimum) (nat \<lfloor>dval ms + 1 / 2\<rfloor>))"
proof -
  define ms where "ms = d_mul seconds (Fin 1000)"
  have limit: "d_of_nat 0xFFFFFFFF = Fin 4294967295" using d_of_nat_exact [of 4294967295] by simp
  show ?thesis
  proof (cases "isfinite ms \<and> dval ms < 4294967295")
    case True
    define n where "n = max 0 \<lfloor>dval ms + 1 / 2\<rfloor>"
    have n: "0 \<le> n" "n < 2 ^ 32" using True by (simp_all add: n_def floor_less_iff)
    have "unat (of_int n :: u32) = nat n"
      using n by (simp add: unat_eq_nat_uint uint_word_of_int_eq take_bit_int_eq_self)
    moreover have "nat n = nat \<lfloor>dval ms + 1 / 2\<rfloor>" by (simp add: n_def)
    moreover have "Milliseconds seconds minimum = max minimum (of_int n)"
      using True rounded_milliseconds [of ms]
      by (simp add: Milliseconds_def limit d_le_finite n_def flip: ms_def)
    ultimately show ?thesis using True by (simp add: Let_def max_u32 flip: ms_def)
  next
    case False
    then show ?thesis by (auto simp: Milliseconds_def limit Let_def d_le_finite simp flip: ms_def)
  qed
qed

text \<open>
  C38. The conversion to milliseconds never performs an undefined conversion: it yields the
  product with 1000, rounded to the nearest integer with halves up, but at least the minimum
  and at most \<open>2 ^ 32 - 1\<close>; an infinite or NaN product yields the minimum.
\<close>

theorem Milliseconds_exact:
  "let ms = d_mul seconds (Fin 1000) in
    unat (Milliseconds seconds minimum) =
      (if \<not> isfinite ms then unat minimum
       else if 4294967295 \<le> dval ms then 4294967295
       else max (unat minimum) (nat \<lfloor>dval ms + 1 / 2\<rfloor>))"
  by (rule Milliseconds_value)

lemma Milliseconds_ge: "minimum \<le> Milliseconds seconds minimum"
proof -
  have "unat minimum \<le> unat (Milliseconds seconds minimum)"
    using Milliseconds_value [of seconds minimum] unsigned_less [of minimum, where ?'a = nat]
    by (auto simp: Let_def split: if_splits)
  then show ?thesis by (simp add: word_le_nat_alt)
qed

text \<open>What the loops return when they do.\<close>

lemma degrees_up_not_negative: "degrees_up v = Some d \<Longrightarrow> \<not> d_lt d (Fin 0)"
proof (rule degrees_up.raw_induct [where P = "\<lambda>v d. \<not> d_lt d (Fin 0)"])
  fix f v d
  assume "\<And>v d. f v = Some d \<Longrightarrow> \<not> d_lt d (Fin 0)"
    and "(if d_lt v (Fin 0) then f (d_add v (Fin 360)) else Some v) = Some d"
  then show "\<not> d_lt d (Fin 0)" by (auto split: if_splits)
qed

lemma d_sub_360_not_negative: "d_le (Fin 360) v \<Longrightarrow> \<not> d_lt (d_sub v (Fin 360)) (Fin 0)"
proof (cases v)
  case (Fin r)
  moreover assume "d_le (Fin 360) v"
  ultimately have "0 \<le> r - 360" by (simp add: d_le_finite)
  then show ?thesis using Fin rnd_nonneg [of "r - 360"] by (auto simp: d_sub_def fl_def Let_def)
qed (auto simp: d_le_def d_sub_def)

lemma degrees_down_in_range:
  "degrees_down v = Some d \<Longrightarrow> \<not> d_lt v (Fin 0) \<Longrightarrow> d = NaN \<or> in_circle d"
proof (rule degrees_down.raw_induct [where P = "\<lambda>v d. \<not> d_lt v (Fin 0) \<longrightarrow> d = NaN \<or> in_circle d", rule_format])
  fix f v d
  assume IH: "\<And>v d. f v = Some d \<Longrightarrow> \<not> d_lt v (Fin 0) \<Longrightarrow> d = NaN \<or> in_circle d"
    and step: "(if d_le (Fin 360) v then f (d_sub v (Fin 360)) else Some v) = Some d" and pos: "\<not> d_lt v (Fin 0)"
  show "d = NaN \<or> in_circle d"
  proof (cases "d_le (Fin 360) v")
    case True
    then show ?thesis using IH [OF _ d_sub_360_not_negative [OF True]] step by simp
  next
    case False
    then show ?thesis using step pos by (cases d) (auto simp: in_circle_def d_le_finite, auto simp: d_le_def)
  qed
qed

lemma Degrees_in_range: "Degrees radians = Some d \<Longrightarrow> d = NaN \<or> in_circle d"
  by (auto simp: Degrees_def Option.bind_eq_Some_conv dest: degrees_up_not_negative degrees_down_in_range)

section \<open>Every environment gives a valid configuration\<close>

lemma d_max_ge: "isfinite m \<Longrightarrow> d_le m (d_max m x)"
  by (cases "d_lt m x") (auto simp: d_max_def d_le_def d_eq_refl)

lemma EnvironmentDouble_ge:
  "isfinite minimum \<Longrightarrow> d_le minimum fallback \<Longrightarrow> d_le minimum (EnvironmentDouble env name fallback minimum)"
  by (auto simp: EnvironmentDouble_def d_max_ge split: sum.split)

lemma EnvironmentText_nonempty: "fallback \<noteq> [] \<Longrightarrow> EnvironmentText env name fallback \<noteq> []"
  by (auto simp: EnvironmentText_def split: option.split)

lemma EnvironmentUint64_ge: "minimum \<le> fallback \<Longrightarrow> minimum \<le> EnvironmentUint64 env name fallback minimum"
  by (auto simp: EnvironmentUint64_def split: sum.split)

lemma EnvironmentUint32_ge: "minimum \<le> fallback \<Longrightarrow> minimum \<le> EnvironmentUint32 env name fallback minimum"
  by (auto simp: EnvironmentUint32_def split: sum.split)

definition valid_config :: "RuntimeConfig \<Rightarrow> bool" where
  "valid_config c \<longleftrightarrow>
     rc_host c \<noteq> [] \<and> rc_port c \<noteq> 0 \<and> d_le (fl (5 / 100)) (rc_intervalSeconds c) \<and>
     1 \<le> rc_defaultDataRateBps c \<and> d_le (Fin 0) (rc_defaultDelayMs c) \<and>
     isfinite (rc_defaultLossRate c) \<and> 0 \<le> dval (rc_defaultLossRate c) \<and> dval (rc_defaultLossRate c) \<le> 1"

lemma loss_in_unit:
  assumes "d_le (Fin 0) x"
  shows "isfinite (d_min (Fin 1) x) \<and> 0 \<le> dval (d_min (Fin 1) x) \<and> dval (d_min (Fin 1) x) \<le> 1"
  using assms by (cases x) (auto simp: d_min_def d_le_def)

lemma port_in_range:
  assumes "1 \<le> (p :: u32)"
  shows "(ucast (min 65535 p) :: u16) \<noteq> 0"
proof -
  have "unat (min 65535 p) \<le> 65535" "1 \<le> unat (min 65535 p)"
    using assms by (auto simp: min_def word_le_nat_alt)
  then have "unat (ucast (min 65535 p) :: u16) = unat (min 65535 p)"
    by (simp add: unsigned_ucast_eq take_bit_nat_eq_self)
  with \<open>1 \<le> unat (min 65535 p)\<close> show ?thesis by (metis not_one_le_zero unat_0)
qed

lemma runtime_config_is_valid: "valid_config (runtime_config env)"
proof -
  have small: "d_le (fl (5 / 100)) (Fin 1)" by (simp add: double_eval d_le_finite)
  have fin: "isfinite (fl (5 / 100))" by (simp add: double_eval)
  have "(1 :: u32) \<le> 18080" "(1 :: u64) \<le> 1000000" by simp_all
  then show ?thesis
    using EnvironmentDouble_ge [OF fin small] EnvironmentUint32_ge [of 1 18080] EnvironmentUint64_ge [of 1 1000000]
    by (auto simp: valid_config_def runtime_config_def EnvironmentText_nonempty d_le_finite
        intro!: port_in_range EnvironmentDouble_ge loss_in_unit [THEN conjunct1]
          loss_in_unit [THEN conjunct2, THEN conjunct1] loss_in_unit [THEN conjunct2, THEN conjunct2])
qed

end
