(* ===== verification/JsonUnique.thy ===== *)
theory JsonUnique
  imports ProtocolJson
begin

text \<open>
  The grammar of JSON texts is unambiguous: a text denotes at most one value. So what the messages
  mean to a reader does not depend on how it parses them.
\<close>

section \<open>Strings\<close>

lemma string_body_unique:
  assumes "string_body a x" and "string_body b y" and "a @ dquote # t = b @ dquote # u"
  shows "a = b \<and> x = y \<and> t = u"
  using assms
proof (induction arbitrary: b y rule: string_body.induct)
  case body_nil
  then show ?case by (auto elim: string_body.cases)
next
  case (body_plain c s x)
  then obtain b' where b: "b = c # b'" by (cases b) auto
  with body_plain.prems(1) body_plain.hyps(1,2) obtain y' where "y = c # y'" "string_body b' y'"
    by (auto elim: string_body.cases)
  then show ?case using body_plain b by auto
next
  case (body_escape e c s x)
  then obtain b' where b: "b = bslash # e # b'"
    by (cases b; cases "tl b") (auto elim: string_body.cases)
  with body_escape.prems(1) body_escape.hyps(1) obtain y' where y: "y = c # y'" "string_body b' y'"
    by (auto elim: string_body.cases)
  then show ?case using body_escape b by auto
next
  case (body_unicode h s x)
  from body_unicode.prems(2) have "\<exists>b0. b = bslash # CHR ''u'' # b0"
    using body_unicode.prems(1) by (cases b; cases "tl b") (auto elim: string_body.cases)
  then obtain b0 where b0: "b = bslash # CHR ''u'' # b0" by blast
  with body_unicode.prems(1) obtain h' b' y' where b: "b0 = h' @ b'" "length h' = 4"
    "y = char_of (digits_value 16 h') # y'" "string_body b' y'"
    by (auto elim: string_body.cases)
  have "h = h' \<and> s @ dquote # t = b' @ dquote # u"
    using body_unicode.prems(2) body_unicode.hyps(1) b(2) by (simp add: b0 b(1))
  with body_unicode.IH [OF b(4)] show ?case by (simp add: b0 b)
qed

section \<open>Numbers\<close>

definition stop_char :: "char \<Rightarrow> bool" where
  "stop_char c \<longleftrightarrow> c = CHR '','' \<or> c = CHR '']'' \<or> c = CHR ''}''"

definition stops :: "string \<Rightarrow> bool" where
  "stops t \<longleftrightarrow> t = [] \<or> stop_char (hd t)"

definition unsigned_value :: "string \<Rightarrow> rat" where
  "unsigned_value u =
     (let ip = takeWhile (\<lambda>c. c \<noteq> CHR ''.'') u; fp = drop 1 (dropWhile (\<lambda>c. c \<noteq> CHR ''.'') u) in
      of_nat (digits_value 10 (ip @ fp)) / 10 ^ length fp)"

definition plain_value :: "string \<Rightarrow> rat" where
  "plain_value s =
     (let u = takeWhile (\<lambda>c. c \<noteq> CHR ''e'') s; x = drop 1 (dropWhile (\<lambda>c. c \<noteq> CHR ''e'') s) in
      unsigned_value u *
      10 powi (if x = [] then 0 else if hd x = CHR ''+'' then int (digits_value 10 (tl x))
        else - int (digits_value 10 (tl x))))"

definition number_value :: "string \<Rightarrow> rat" where
  "number_value s = (if hd s = CHR ''-'' then - plain_value (tl s) else plain_value s)"

lemma takeWhile_split: "c \<notin> set xs \<Longrightarrow> takeWhile (\<lambda>d. d \<noteq> c) (xs @ c # ys) = xs"
  and dropWhile_split: "c \<notin> set xs \<Longrightarrow> dropWhile (\<lambda>d. d \<noteq> c) (xs @ c # ys) = c # ys"
  and takeWhile_without: "c \<notin> set xs \<Longrightarrow> takeWhile (\<lambda>d. d \<noteq> c) xs = xs"
  and dropWhile_without: "c \<notin> set xs \<Longrightarrow> dropWhile (\<lambda>d. d \<noteq> c) xs = []"
  by (induction xs) auto

lemma not_in_digits: "all_digits ds \<Longrightarrow> \<not> c_isdigit c \<Longrightarrow> c \<notin> set ds"
  by (auto simp: all_digits_def list_all_iff)

lemma not_digit: "\<not> c_isdigit (CHR ''.'')" "\<not> c_isdigit (CHR ''e'')" "\<not> c_isdigit (CHR ''-'')"
  "\<not> c_isdigit (CHR ''+'')" "stop_char c \<Longrightarrow> \<not> c_isdigit c"
  by (auto simp: c_isdigit_def byte_of_def stop_char_def)

lemma json_unsigned_value: "json_unsigned u v \<Longrightarrow> v = unsigned_value u"
  by (induction rule: json_unsigned.induct)
    (simp_all add: unsigned_value_def json_int_def not_in_digits not_digit takeWhile_split dropWhile_split
      takeWhile_without dropWhile_without)

lemma json_unsigned_chars:
  "json_unsigned u v \<Longrightarrow> u \<noteq> [] \<and> c_isdigit (hd u) \<and> (\<forall>c \<in> set u. c_isdigit c \<or> c = CHR ''.'')"
  by (induction rule: json_unsigned.induct)
    (auto simp: json_int_def all_digits_def list_all_iff hd_append)

lemma not_stop: "c_isdigit c \<Longrightarrow> \<not> stop_char c" "\<not> stop_char (CHR ''.'')" "\<not> stop_char (CHR ''e'')"
  "\<not> stop_char (CHR ''+'')" "\<not> stop_char (CHR ''-'')"
  using not_digit(5) by (auto simp: stop_char_def)

lemma json_unsigned_start:
  "json_unsigned s v \<Longrightarrow> s \<noteq> [] \<and> c_isdigit (hd (s @ t)) \<and> (\<forall>c \<in> set s. \<not> stop_char c)"
  using json_unsigned_chars [of s v] not_stop(1,2) by (cases s) auto

lemma digits_not_stop: "all_digits es \<Longrightarrow> \<forall>c \<in> set es. \<not> stop_char c"
  using not_stop(1) by (auto simp: all_digits_def list_all_iff)

lemma json_number_chars:
  "json_number s v \<Longrightarrow> s \<noteq> [] \<and> (\<forall>c \<in> set s. \<not> stop_char c) \<and> (c_isdigit (hd s) \<or> hd s = CHR ''-'')"
proof (induction rule: json_number.induct)
  case (plain s v)
  then show ?case using json_unsigned_start [of s v "[]"] by simp
next
  case (exp_pos s v es)
  then show ?case
    using json_unsigned_start [OF exp_pos.hyps(1), of "[]"] digits_not_stop [of es] not_stop
    by (simp add: ball_Un)
next
  case (exp_neg s v es)
  then show ?case
    using json_unsigned_start [OF exp_neg.hyps(1), of "[]"] digits_not_stop [of es] not_stop
    by (simp add: ball_Un)
next
  case (minus s v)
  then show ?case using not_stop(5) by simp
qed

lemma json_unsigned_no_e: "json_unsigned s v \<Longrightarrow> CHR ''e'' \<notin> set s"
  using json_unsigned_chars [of s v] not_digit(2) by auto

lemma json_unsigned_no_minus: "json_unsigned s v \<Longrightarrow> hd (s @ t) \<noteq> CHR ''-''"
  using json_unsigned_chars [of s v] not_digit(3) by (auto simp: hd_append)

lemma json_number_plain:
  "json_number s v \<Longrightarrow> hd s \<noteq> CHR ''-'' \<Longrightarrow> v = plain_value s"
  by (induction rule: json_number.induct)
    (simp_all add: plain_value_def json_unsigned_no_e takeWhile_split dropWhile_split takeWhile_without
      dropWhile_without json_unsigned_value)

lemma json_number_value: "json_number s v \<Longrightarrow> v = number_value s"
proof (induction rule: json_number.induct)
  case (minus s v)
  then show ?case using json_number_plain [of s v] by (simp add: number_value_def)
next
  case (plain s v)
  then show ?case
    using json_number_plain [OF json_number.plain] json_unsigned_no_minus [of s v "[]"] by (simp add: number_value_def)
next
  case (exp_pos s v es)
  then show ?case
    using json_number_plain [OF json_number.exp_pos] json_unsigned_no_minus [of s v] by (simp add: number_value_def)
next
  case (exp_neg s v es)
  then show ?case
    using json_number_plain [OF json_number.exp_neg] json_unsigned_no_minus [of s v] by (simp add: number_value_def)
qed

lemma until_stop:
  assumes "\<forall>c \<in> set s. \<not> stop_char c" and "stops t"
  shows "takeWhile (\<lambda>c. \<not> stop_char c) (s @ t) = s"
proof -
  have "takeWhile (\<lambda>c. \<not> stop_char c) t = []"
    using assms(2) by (cases t) (simp_all add: stops_def)
  then show ?thesis using assms(1) by (simp add: takeWhile_append)
qed

section \<open>Texts\<close>

text \<open>A unit of a sequence: what follows it, if it can follow, does not change how it is read.\<close>

definition determined :: "(string \<Rightarrow> 'v \<Rightarrow> bool) \<Rightarrow> string \<Rightarrow> 'v \<Rightarrow> bool" where
  "determined R s v \<longleftrightarrow> s \<noteq> [] \<and> \<not> stop_char (hd s) \<and>
     (\<forall>s' v' t t'. R s' v' \<longrightarrow> stops t \<longrightarrow> stops t' \<longrightarrow> s @ t = s' @ t' \<longrightarrow> s = s' \<and> v = v')"

lemma stops_simps [simp]: "stops []" "stops (c # t) \<longleftrightarrow> stop_char c" "stop_char (CHR '','')"
  by (simp_all add: stops_def stop_char_def)

lemma commas_unique:
  assumes "list_all2 (determined R) ts vs" and "list_all2 R us ws"
    and "\<And>s v. R s v \<Longrightarrow> s \<noteq> [] \<and> \<not> stop_char (hd s)"
    and "c = CHR '']'' \<or> c = CHR ''}''" and "commas ts @ c # t = commas us @ c # u"
  shows "ts = us \<and> vs = ws \<and> t = u"
  using assms(1,2,5)
proof (induction ts arbitrary: vs us ws)
  case Nil
  have "us = []"
  proof (cases us)
    case (Cons a as)
    then have "a \<noteq> []" "\<not> stop_char (hd a)" using Nil.prems(2) assms(3) by (auto simp: list_all2_Cons1)
    then show ?thesis using Nil.prems(3) assms(4) by (cases a) (auto simp: Cons commas_Cons stop_char_def)
  qed
  then show ?case using Nil by simp
next
  case (Cons a ts)
  have c: "stop_char c" "c \<noteq> CHR '',''" using assms(4) by (auto simp: stop_char_def)
  obtain v vs' where vs: "vs = v # vs'" "determined R a v" "list_all2 (determined R) ts vs'"
    using Cons.prems(1) by (auto simp: list_all2_Cons1)
  have "us \<noteq> []"
  proof
    assume "us = []"
    then have "a @ (if ts = [] then [] else '','' @ commas ts) @ c # t = c # u"
      using Cons.prems(3) by (simp add: commas_Cons)
    then show False using vs(2) c by (cases a) (auto simp: determined_def)
  qed
  then obtain b us' where us: "us = b # us'" by (cases us) auto
  then obtain w ws' where ws: "ws = w # ws'" "R b w" "list_all2 R us' ws'"
    using Cons.prems(2) by (auto simp: list_all2_Cons1)
  let ?r = "(if ts = [] then [] else '','' @ commas ts) @ c # t"
  let ?r' = "(if us' = [] then [] else '','' @ commas us') @ c # u"
  have eq: "a @ ?r = b @ ?r'" using Cons.prems(3) by (simp add: us commas_Cons)
  moreover have "stops ?r" "stops ?r'" using c by simp_all
  ultimately have "a = b" "v = w" using vs(2) ws(2) unfolding determined_def by blast+
  moreover from this eq have "?r = ?r'" by simp
  then have "ts = us' \<and> vs' = ws' \<and> t = u"
    using Cons.IH [OF vs(3) ws(3)] vs(3) ws(3) c by (auto split: if_splits)
  ultimately show ?case by (simp add: vs us ws)
qed

definition member :: "string \<Rightarrow> string \<times> json \<Rightarrow> bool" where
  "member t kv \<longleftrightarrow> (\<exists>ks s. t = [dquote] @ ks @ [dquote, CHR '':''] @ s \<and>
     string_body ks (fst kv) \<and> json_text s (snd kv))"

text \<open>The first character of a text decides what it is.\<close>

definition number_start :: "char \<Rightarrow> bool" where
  "number_start c \<longleftrightarrow> c_isdigit c \<or> c = CHR ''-''"

lemma not_number_start: "\<not> number_start (CHR ''n'')" "\<not> number_start (CHR ''t'')" "\<not> number_start (CHR ''f'')"
  "\<not> number_start dquote" "\<not> number_start (CHR ''['')" "\<not> number_start (CHR ''{'')"
  "stop_char c \<Longrightarrow> \<not> number_start c"
  by (auto simp: number_start_def c_isdigit_def byte_of_def stop_char_def)

lemma number_text_start: "json_number s v \<Longrightarrow> s \<noteq> [] \<and> number_start (hd s)"
  using json_number_chars [of s v] by (simp add: number_start_def)

lemma json_text_invert:
  assumes "json_text s v"
  shows "s \<noteq> []" and "\<not> stop_char (hd s)"
    and "hd s = CHR ''n'' \<Longrightarrow> s = ''null'' \<and> v = JNull"
    and "hd s = CHR ''t'' \<Longrightarrow> s = ''true'' \<and> v = JBool True"
    and "hd s = CHR ''f'' \<Longrightarrow> s = ''false'' \<and> v = JBool False"
    and "number_start (hd s) \<Longrightarrow> \<exists>r. v = JNum r \<and> json_number s r"
    and "hd s = dquote \<Longrightarrow> \<exists>b x. s = dquote # b @ [dquote] \<and> v = JStr x \<and> string_body b x"
    and "hd s = CHR ''['' \<Longrightarrow> \<exists>ts vs. s = CHR ''['' # commas ts @ '']'' \<and> v = JArr vs \<and> list_all2 json_text ts vs"
    and "hd s = CHR ''{'' \<Longrightarrow> \<exists>ts kvs. s = CHR ''{'' # commas ts @ ''}'' \<and> v = JObj kvs \<and> list_all2 member ts kvs"
  using assms
  by (cases rule: json_text.cases;
      auto simp: not_number_start member_def [abs_def] stop_char_def dest: number_text_start)+

lemma determinedI:
  assumes "json_text s v"
    and "\<And>s' v' t t'. json_text s' v' \<Longrightarrow> hd s' = hd s \<Longrightarrow> stops t \<Longrightarrow> stops t' \<Longrightarrow> s @ t = s' @ t' \<Longrightarrow>
      s = s' \<and> v = v'"
  shows "determined json_text s v"
proof -
  have "hd s' = hd s" if "json_text s' v'" "s @ t = s' @ t'" for s' v' t t'
    using json_text_invert(1) [OF assms(1)] json_text_invert(1) [OF that(1)] that(2) by (metis hd_append2)
  then show ?thesis
    using assms(2) json_text_invert(1,2) [OF assms(1)] unfolding determined_def by blast
qed

lemma member_start: "member t kv \<Longrightarrow> t \<noteq> [] \<and> \<not> stop_char (hd t)"
  by (auto simp: member_def stop_char_def)

lemma member_determined:
  assumes "string_body ks (fst kv)" and "determined json_text s (snd kv)"
    and "m = [dquote] @ ks @ [dquote, CHR '':''] @ s"
  shows "determined member m kv"
proof -
  have "m = m' \<and> kv = kv'" if m': "member m' kv'" and stop: "stops t" "stops t'" and eq: "m @ t = m' @ t'" for m' kv' t t'
  proof -
    obtain ks' s' where m: "m' = [dquote] @ ks' @ [dquote, CHR '':''] @ s'" "string_body ks' (fst kv')"
      "json_text s' (snd kv')" using m' by (auto simp: member_def)
    have "ks @ dquote # CHR '':'' # s @ t = ks' @ dquote # CHR '':'' # s' @ t'"
      using eq by (simp add: assms(3) m(1))
    from string_body_unique [OF assms(1) m(2) this] have k: "ks = ks'" "fst kv = fst kv'" "s @ t = s' @ t'" by simp_all
    then have "s = s' \<and> snd kv = snd kv'" using assms(2) m(3) stop unfolding determined_def by blast
    with k show ?thesis by (simp add: assms(3) m(1) prod_eq_iff)
  qed
  moreover have "m \<noteq> []" "\<not> stop_char (hd m)" by (simp_all add: assms(3) stop_char_def)
  ultimately show ?thesis unfolding determined_def by blast
qed

lemma json_text_determined: "json_text s v \<Longrightarrow> determined json_text s v"
proof (induction rule: json_text.induct)
  case text_null
  show ?case by (rule determinedI [OF json_text.text_null]) (auto dest: json_text_invert(3))
next
  case text_true
  show ?case by (rule determinedI [OF json_text.text_true]) (auto dest: json_text_invert(4))
next
  case text_false
  show ?case by (rule determinedI [OF json_text.text_false]) (auto dest: json_text_invert(5))
next
  case (text_number s v)
  show ?case
  proof (rule determinedI [OF json_text.text_number [OF text_number]])
    fix s' v' t t'
    assume other: "json_text s' v'" "hd s' = hd s" and stop: "stops t" "stops t'" and eq: "s @ t = s' @ t'"
    then obtain r where r: "v' = JNum r" "json_number s' r"
      using json_text_invert(6) [OF other(1)] number_text_start [OF text_number] by auto
    have "s = takeWhile (\<lambda>c. \<not> stop_char c) (s @ t)" "s' = takeWhile (\<lambda>c. \<not> stop_char c) (s' @ t')"
      using json_number_chars [OF text_number] json_number_chars [OF r(2)] stop until_stop by metis+
    then have "s = s'" using eq by simp
    then show "s = s' \<and> JNum v = v'"
      using json_number_value [OF text_number] json_number_value [OF r(2)] r(1) by simp
  qed
next
  case (text_string b x)
  show ?case
  proof (rule determinedI [OF json_text.text_string [OF text_string]])
    fix s' v' t t'
    assume other: "json_text s' v'" "hd s' = hd ([dquote] @ b @ [dquote])" and eq: "([dquote] @ b @ [dquote]) @ t = s' @ t'"
    then obtain b' x' where r: "s' = dquote # b' @ [dquote]" "v' = JStr x'" "string_body b' x'"
      using json_text_invert(7) [OF other(1)] by auto
    then have "b @ dquote # t = b' @ dquote # t'" using eq by simp
    from string_body_unique [OF text_string r(3) this] show "[dquote] @ b @ [dquote] = s' \<and> JStr x = v'"
      by (simp add: r)
  qed
next
  case (text_array ts vs)
  have texts: "list_all2 json_text ts vs" and det: "list_all2 (determined json_text) ts vs"
    using text_array by (auto elim: list_all2_mono)
  show ?case
  proof (rule determinedI [OF json_text.text_array [OF texts]])
    fix s' v' t t'
    assume other: "json_text s' v'" "hd s' = hd (''['' @ commas ts @ '']'')" and eq: "(''['' @ commas ts @ '']'') @ t = s' @ t'"
    then obtain us ws where r: "s' = CHR ''['' # commas us @ '']''" "v' = JArr ws" "list_all2 json_text us ws"
      using json_text_invert(8) [OF other(1)] by auto
    then have "commas ts @ CHR '']'' # t = commas us @ CHR '']'' # t'" using eq by simp
    from commas_unique [OF det r(3) _ _ this] json_text_invert(1,2)
    show "''['' @ commas ts @ '']'' = s' \<and> JArr vs = v'" by (simp add: r)
  qed
next
  case (text_object ts kvs)
  have texts: "list_all2 (\<lambda>t kv. \<exists>ks s. t = [dquote] @ ks @ [dquote, CHR '':''] @ s \<and>
      string_body ks (fst kv) \<and> json_text s (snd kv)) ts kvs" and det: "list_all2 (determined member) ts kvs"
    using text_object by (auto elim!: list_all2_mono intro: member_determined)
  show ?case
  proof (rule determinedI [OF json_text.text_object [OF texts]])
    fix s' v' t t'
    assume other: "json_text s' v'" "hd s' = hd (''{'' @ commas ts @ ''}'')" and eq: "(''{'' @ commas ts @ ''}'') @ t = s' @ t'"
    then obtain us ws where r: "s' = CHR ''{'' # commas us @ ''}''" "v' = JObj ws" "list_all2 member us ws"
      using json_text_invert(9) [OF other(1)] by auto
    then have "commas ts @ CHR ''}'' # t = commas us @ CHR ''}'' # t'" using eq by simp
    from commas_unique [OF det r(3) _ _ this] member_start
    show "''{'' @ commas ts @ ''}'' = s' \<and> JObj kvs = v'" by (simp add: r)
  qed
qed

lemma json_text_unique: "json_text s v \<Longrightarrow> json_text s v' \<Longrightarrow> v = v'"
  using json_text_determined [of s v] unfolding determined_def by (metis stops_simps(1))

lemma json_texts_unique: "list_all2 json_text ss vs \<Longrightarrow> list_all2 json_text ss vs' \<Longrightarrow> vs = vs'"
proof (induction arbitrary: vs' rule: list_all2_induct)
  case Nil
  then show ?case by simp
next
  case (Cons s ss v vs)
  then obtain w ws where "vs' = w # ws" "json_text s w" "list_all2 json_text ss ws"
    by (auto simp: list_all2_Cons1)
  then show ?case using Cons.IH [of ws] json_text_unique [OF Cons.hyps(1), of w] by simp
qed

section \<open>Doubles that are not finite\<close>

text \<open>What the writers print for them is no JSON text.\<close>

lemma no_number: "\<not> json_number ''nan'' r" "\<not> json_number ''inf'' r" "\<not> json_number ''-inf'' r"
proof -
  have start: "c_isdigit (hd s) \<or> hd s = CHR ''-''" if "json_number s r" for s r
    using json_number_chars [OF that] by blast
  show "\<not> json_number ''nan'' r" using start [of "''nan''"] by (auto simp: c_isdigit_def byte_of_def)
  have inf: "\<not> json_number ''inf'' r" for r using start [of "''inf''"] by (auto simp: c_isdigit_def byte_of_def)
  then show "\<not> json_number ''inf'' r" .
  have unsigned: "c_isdigit (hd (s @ t))" if "json_unsigned s v" for s t v
    using json_unsigned_start [OF that] by blast
  show "\<not> json_number ''-inf'' r"
  proof
    assume "json_number ''-inf'' r"
    then show False
    proof cases
      case plain
      then show ?thesis using unsigned [of "''-inf''" r "[]"] not_digit by simp
    next
      case (exp_pos s v es)
      then show ?thesis using unsigned [OF exp_pos(3), of "CHR ''e'' # CHR ''+'' # es"] not_digit by (simp flip: exp_pos(1))
    next
      case (exp_neg s v es)
      then show ?thesis using unsigned [OF exp_neg(3), of "CHR ''e'' # CHR ''-'' # es"] not_digit by (simp flip: exp_neg(1))
    next
      case (minus v)
      then show ?thesis using inf by simp
    qed
  qed
qed

lemma nonfinite_not_json: "\<not> isfinite x \<Longrightarrow> \<not> json_text (put_double x) v"
  using no_number by (cases x) (auto elim: json_text.cases)

end
