(* ===== verification/Peer.thy ===== *)
theory Peer
  imports JsonUnique DeltaTracker
begin

text \<open>
  The peer of the connection as a reader of JSON values. It keeps, under each identifier, the object
  it was sent last, as \<open>initialize\<close> and \<open>apply_delta\<close> of the service do
  (\<open>src/afsim_ns3_bridge/state.py\<close>; every object the writers send has all its fields, so merging
  it into the one before is replacing that). It knows nothing of the C++ structures and looks
  at messages and objects by their field names only.
\<close>

section \<open>Fields\<close>

definition field :: "string \<Rightarrow> json \<Rightarrow> json option" where
  "field k j = (case j of JObj kvs \<Rightarrow> map_of kvs k | _ \<Rightarrow> None)"

definition items :: "string \<Rightarrow> json \<Rightarrow> json list" where
  "items k j = (case field k j of Some (JArr vs) \<Rightarrow> vs | _ \<Rightarrow> [])"

definition text_of :: "json \<Rightarrow> string" where
  "text_of j = (case j of JStr s \<Rightarrow> s | _ \<Rightarrow> [])"

definition text_field :: "string \<Rightarrow> json \<Rightarrow> string" where
  "text_field k j = (case field k j of Some v \<Rightarrow> text_of v | None \<Rightarrow> [])"

section \<open>What the peer does with a message\<close>

type_synonym objects = "string \<Rightarrow> json option"

definition put_objects :: "string \<Rightarrow> json list \<Rightarrow> objects \<Rightarrow> objects" where
  "put_objects idField vs m = fold (\<lambda>v m. m(text_field idField v \<mapsto> v)) vs m"

definition drop_objects :: "json list \<Rightarrow> objects \<Rightarrow> objects" where
  "drop_objects ids m = fold (\<lambda>v m. m(text_of v := None)) ids m"

text \<open>Nothing is known before the first full snapshot.\<close>

definition peer_step :: "json \<Rightarrow> (objects \<times> objects) option \<Rightarrow> (objects \<times> objects) option" where
  "peer_step j p =
     (if text_field ''message_type'' j = ''afsim_init'' then
        Some (put_objects ''entity_id'' (items ''entities'' j) (\<lambda>_. None),
          put_objects ''flow_id'' (items ''flows'' j) (\<lambda>_. None))
      else if text_field ''message_type'' j = ''afsim_delta'' then
        map_option (\<lambda>(es, fs).
          (put_objects ''entity_id'' (items ''entity_upserts'' j) (drop_objects (items ''entity_removals'' j) es),
           put_objects ''flow_id'' (items ''flow_upserts'' j) (drop_objects (items ''flow_removals'' j) fs))) p
      else p)"

text \<open>The objects that describe a list of values, by identifier.\<close>

definition described :: "('v \<Rightarrow> string) \<Rightarrow> ('v \<Rightarrow> json) \<Rightarrow> 'v list \<Rightarrow> objects" where
  "described idGetter value vs = map_of (map (\<lambda>v. (idGetter v, value v)) vs)"

section \<open>The peer against the receiver of change lists\<close>

lemma map_of_values: "map_of (map (\<lambda>v. (f v, g v)) vs) k = map_option g (map_of (map (\<lambda>v. (f v, v)) vs) k)"
  by (induction vs) auto

lemma put_objects_values:
  assumes "\<And>v. text_field idField (value v) = idGetter v"
  shows "put_objects idField (map value vs) m k =
    (case map_of (rev (map (\<lambda>v. (idGetter v, v)) vs)) k of Some v \<Rightarrow> Some (value v) | None \<Rightarrow> m k)"
proof (induction vs arbitrary: m)
  case Nil
  then show ?case by (simp add: put_objects_def)
next
  case (Cons v vs)
  then show ?case by (simp add: put_objects_def assms map_add_def split: option.split)
qed

lemma drop_objects_values: "drop_objects (map JStr ids) m k = (if k \<in> set ids then None else m k)"
  by (induction ids arbitrary: m) (auto simp: drop_objects_def text_of_def)

definition objects_of :: "('v \<Rightarrow> json) \<Rightarrow> (string, 'v) cmap \<Rightarrow> objects" where
  "objects_of value m = (\<lambda>k. map_option value (map_find m k))"

lemma objects_of_patch:
  assumes "map_ok m" and "\<And>v. text_field idField (value v) = idGetter v"
  shows "objects_of value (patch idGetter ups gone m) =
    put_objects idField (map value ups) (drop_objects (map JStr gone) (objects_of value m))"
  by (rule ext) (simp add: objects_of_def find_patch [OF assms(1)] put_objects_values [OF assms(2)]
      drop_objects_values split: option.split)

lemma objects_of_empty: "objects_of value [] = (\<lambda>_. None)"
  by (simp add: objects_of_def fun_eq_iff)

lemma drop_nothing: "drop_objects [] m = m"
  by (simp add: drop_objects_def)

lemma id_fields: "text_field ''entity_id'' (entity_json e) = ent_entityId e"
  "text_field ''flow_id'' (flow_json f) = flow_flowId f"
  by (simp_all add: text_field_def field_def text_of_def entity_json_def flow_json_def)

lemma patch_objects:
  "map_ok m \<Longrightarrow> objects_of entity_json (patch ent_entityId es gone m) =
    put_objects ''entity_id'' (map entity_json es) (drop_objects (map JStr gone) (objects_of entity_json m))"
  "map_ok n \<Longrightarrow> objects_of flow_json (patch flow_flowId fs gone n) =
    put_objects ''flow_id'' (map flow_json fs) (drop_objects (map JStr gone) (objects_of flow_json n))"
  by (simp_all add: objects_of_patch id_fields)

definition peer_of :: "World \<Rightarrow> objects \<times> objects" where
  "peer_of w = (objects_of entity_json (w_entities w), objects_of flow_json (w_flows w))"

definition world_ok :: "World \<Rightarrow> bool" where
  "world_ok w \<longleftrightarrow> map_ok (w_entities w) \<and> map_ok (w_flows w)"

definition load :: "EntityState list \<Rightarrow> FlowConfig list \<Rightarrow> World" where
  "load es fs = \<lparr>w_entities = patch ent_entityId es [] [], w_flows = patch flow_flowId fs [] []\<rparr>"

lemma peer_step_init: "peer_step (init_json r t es fs) p = Some (peer_of (load es fs))"
proof -
  have "text_field ''message_type'' (init_json r t es fs) = ''afsim_init''"
    "items ''entities'' (init_json r t es fs) = map entity_json es"
    "items ''flows'' (init_json r t es fs) = map flow_json fs"
    by (simp_all add: text_field_def items_def field_def text_of_def init_json_def envelope_json_def)
  then show ?thesis
    by (simp add: peer_step_def peer_of_def load_def objects_of_empty drop_nothing patch_objects)
qed

lemma peer_step_delta:
  assumes "world_ok w"
  shows "peer_step (delta_json r t d) (Some (peer_of w)) = Some (peer_of (apply_delta d w))"
proof -
  have "text_field ''message_type'' (delta_json r t d) = ''afsim_delta''"
    "items ''entity_upserts'' (delta_json r t d) = map entity_json (entityUpserts d)"
    "items ''entity_removals'' (delta_json r t d) = map JStr (entityRemovals d)"
    "items ''flow_upserts'' (delta_json r t d) = map flow_json (flowUpserts d)"
    "items ''flow_removals'' (delta_json r t d) = map JStr (flowRemovals d)"
    by (simp_all add: text_field_def items_def field_def text_of_def delta_json_def envelope_json_def)
  then show ?thesis
    using assms by (simp add: peer_step_def peer_of_def apply_delta_def world_ok_def patch_objects)
qed

lemma peer_step_delta_nothing: "peer_step (delta_json r t d) None = None"
  by (simp add: peer_step_def text_field_def field_def text_of_def delta_json_def envelope_json_def)

lemma world_ok_load: "world_ok (load es fs)"
  by (simp add: world_ok_def load_def map_ok_patch)

lemma world_ok_apply: "world_ok w \<Longrightarrow> world_ok (apply_delta d w)"
  by (simp add: world_ok_def apply_delta_def map_ok_patch)

section \<open>Equal entities look the same to the peer\<close>

text \<open>The comparison of the tracker is pinned by what is sent: it equates no two entities that
  differ in anything the messages carry.\<close>

lemma d_eq_sent: "d_eq x y \<Longrightarrow> sent_value x = sent_value y"
  by (cases x; cases y) (auto simp: sent_value_def)

lemma SameVector_map:
  assumes "SameVector same vs ws" and "\<And>a b. same a b \<Longrightarrow> f a = f b"
  shows "map f vs = map f ws"
proof -
  have "list_all2 same vs ws" using assms(1) by (simp add: SameVector_def list_all2_iff list_all_iff)
  then show ?thesis by (induction rule: list_all2_induct) (simp_all add: assms(2))
qed

lemma Same_Device_json: "Same_Device a b \<Longrightarrow> device_json a = device_json b"
  by (simp add: Same_Device_def device_json_def d_eq_sent)

lemma Same_Policy_json: "Same_Policy a b \<Longrightarrow> policy_json a = policy_json b"
  by (simp add: Same_Policy_def policy_json_def d_eq_sent)

lemma Same_Entity_json:
  assumes "Same_Entity a b"
  shows "entity_json a = entity_json b"
proof -
  have "map device_json (ent_devices a) = map device_json (ent_devices b)"
    "map policy_json (ent_effectPolicies a) = map policy_json (ent_effectPolicies b)"
    using assms SameVector_map [where f = device_json and same = Same_Device, OF _ Same_Device_json]
      SameVector_map [where f = policy_json and same = Same_Policy, OF _ Same_Policy_json]
    by (simp_all add: Same_Entity_def)
  with assms show ?thesis
    by (simp add: Same_Entity_def entity_json_def Same_Position_def Same_Velocity_def d_eq_sent)
qed

text \<open>What the peer of a receiver in step with a list of values holds.\<close>

lemma objects_described:
  assumes "ids_ok idGetter vs" and "\<And>k. map_has m k \<longleftrightarrow> k \<in> idGetter ` set vs"
    and "\<And>v. v \<in> set vs \<Longrightarrow> \<exists>w. map_find m (idGetter v) = Some w \<and> value w = value v"
  shows "objects_of value m = described idGetter value vs"
proof
  fix k
  have d: "distinct (map fst (map (\<lambda>v. (idGetter v, value v)) vs))"
    using assms(1) by (simp add: ids_ok_def o_def)
  show "objects_of value m k = described idGetter value vs k"
  proof (cases "k \<in> idGetter ` set vs")
    case True
    then obtain v where v: "v \<in> set vs" "k = idGetter v" by blast
    then have "described idGetter value vs k = Some (value v)"
      using d by (auto simp: described_def intro!: map_of_is_SomeI)
    then show ?thesis using assms(3) [OF v(1)] v(2) by (auto simp: objects_of_def)
  next
    case False
    then have "map_find m k = None" using assms(2) [of k] by (simp add: map_has_def)
    moreover have "described idGetter value vs k = None"
      using False by (auto simp: described_def map_of_eq_None_iff)
    ultimately show ?thesis by (simp add: objects_of_def)
  qed
qed

end
