(* ===== verification/ControllerStream.thy ===== *)
theory ControllerStream
  imports Controller Peer
begin

text \<open>
  The contract of the bridge as a whole: whatever states the simulation submits and whatever
  the network does, the peer that reads the lines of a connection and applies them holds the
  last accepted state as soon as nothing waits to be sent. The proof joins the invariant of
  the client (positions in the history of queueing calls) with the one of the delta tracker.
\<close>

section \<open>Messages and what a receiver does with them\<close>

datatype Message =
    Snapshot string u64 "EntityState list" "FlowConfig list"
  | Change string u64 DeltaState

fun message_text :: "Message \<Rightarrow> string" where
  "message_text (Snapshot r t es fs) = BuildInitMessage r t es fs"
| "message_text (Change r t d) = BuildDeltaMessage r t d"

fun message_json :: "Message \<Rightarrow> json" where
  "message_json (Snapshot r t es fs) = init_json r t es fs"
| "message_json (Change r t d) = delta_json r t d"

fun message_finite :: "Message \<Rightarrow> bool" where
  "message_finite (Snapshot r t es fs) = list_all entity_finite es"
| "message_finite (Change r t d) = list_all entity_finite (entityUpserts d)"

lemma message_text_json: "message_finite m \<Longrightarrow> json_text (message_text m) (message_json m)"
  by (cases m) (simp_all add: json_text_BuildInitMessage json_text_BuildDeltaMessage)

text \<open>A receiver of the structures behind the messages. It knows nothing until its first snapshot.\<close>

fun receive_message :: "Message \<Rightarrow> World option \<Rightarrow> World option" where
  "receive_message (Snapshot r t es fs) w = Some (load es fs)"
| "receive_message (Change r t d) w = map_option (apply_delta d) w"

text \<open>The peer, which reads the texts, follows that receiver.\<close>

lemma peer_step_message:
  assumes "\<And>u. w = Some u \<Longrightarrow> world_ok u"
  shows "peer_step (message_json m) (map_option peer_of w) = map_option peer_of (receive_message m w)"
  using assms by (cases m; cases w) (simp_all add: peer_step_init peer_step_delta peer_step_delta_nothing)

lemma world_ok_receive: "(\<And>u. w = Some u \<Longrightarrow> world_ok u) \<Longrightarrow> receive_message m w = Some v \<Longrightarrow> world_ok v"
  by (cases m; cases w) (auto simp: world_ok_load world_ok_apply)

lemma peer_follows_receiver:
  "(\<And>u. w = Some u \<Longrightarrow> world_ok u) \<Longrightarrow>
    fold peer_step (map message_json ms) (map_option peer_of w) = map_option peer_of (fold receive_message ms w)"
proof (induction ms arbitrary: w)
  case Nil
  then show ?case by simp
next
  case (Cons m ms)
  then show ?case using Cons.IH [of "receive_message m w"] world_ok_receive [of w m] peer_step_message [of w m] by simp
qed

section \<open>The abstract history\<close>

datatype Submission =
    Sub_Initial string u64 "EntityState list" "FlowConfig list"
  | Sub_Delta string u64 DeltaState "EntityState list" "FlowConfig list"

fun call_of :: "Submission \<Rightarrow> queue_call" where
  "call_of (Sub_Initial r t es fs) = Call_Initial (BuildInitMessage r t es fs)"
| "call_of (Sub_Delta r t d es fs) =
     Call_Delta (BuildDeltaMessage r t d) (BuildInitMessage (r @ ''-resync'') t es fs)"

type_synonym accepted = "EntityState list \<times> FlowConfig list"

fun state_of :: "Submission \<Rightarrow> accepted" where
  "state_of (Sub_Initial r t es fs) = (es, fs)"
| "state_of (Sub_Delta r t d es fs) = (es, fs)"

definition valid_state :: "accepted \<Rightarrow> bool" where
  "valid_state s \<longleftrightarrow> ids_ok ent_entityId (fst s) \<and> ids_ok flow_flowId (snd s)"

definition finite_state :: "accepted \<Rightarrow> bool" where
  "finite_state s \<longleftrightarrow> list_all entity_finite (fst s)"

definition tracker_of :: "accepted \<Rightarrow> StateDeltaTracker" where
  "tracker_of s = \<lparr>mEntities = projr (Index ent_entityId (fst s)),
     mFlows = projr (Index flow_flowId (snd s)), mInitialized = True\<rparr>"

definition trackers_alike :: "StateDeltaTracker \<Rightarrow> StateDeltaTracker \<Rightarrow> bool" where
  "trackers_alike t u \<longleftrightarrow> entities.maps_alike (mEntities t) (mEntities u) \<and> flows.maps_alike (mFlows t) (mFlows u)"

definition leads_to :: "DeltaState \<Rightarrow> accepted \<Rightarrow> accepted \<Rightarrow> bool" where
  "leads_to d s s' \<longleftrightarrow> set (entityUpserts d) \<subseteq> set (fst s') \<and>
     (\<forall>w. in_step w (tracker_of s) \<longrightarrow> in_step (apply_delta d w) (tracker_of s'))"

text \<open>Every change list of the history leads from the state before it to the state after it.\<close>

definition sound :: "Submission list \<Rightarrow> bool" where
  "sound subs \<longleftrightarrow> list_all (\<lambda>s. valid_state (state_of s)) subs \<and>
     (\<forall>n r t d es fs. 0 < n \<longrightarrow> n < length subs \<longrightarrow> subs ! n = Sub_Delta r t d es fs \<longrightarrow>
       leads_to d (state_of (subs ! (n - 1))) (es, fs))"

lemma option_ext: "(\<And>v. a = Some v \<longleftrightarrow> b = Some v) \<Longrightarrow> a = b"
  by (cases a; cases b) auto

context change_codec
begin

lemma maps_alike_trans:
  assumes "maps_alike m n" and "maps_alike n p"
  shows "maps_alike m p"
  unfolding maps_alike_def
proof
  fix k
  have "rel_option alike (map_find m k) (map_find n k)" "rel_option alike (map_find n k) (map_find p k)"
    using assms by (simp_all add: maps_alike_def)
  then show "rel_option alike (map_find m k) (map_find p k)"
    by (cases "map_find m k"; cases "map_find n k"; cases "map_find p k") (auto intro: alike_trans)
qed

text \<open>A receiver that stores all values of a valid list holds their index.\<close>

lemma patch_all_alike:
  assumes "ids_ok idGetter elems"
  shows "maps_alike (patch idGetter elems [] []) (projr (Index idGetter elems))"
  unfolding maps_alike_def
proof
  fix k
  let ?kvs = "rev (map (\<lambda>v. (idGetter v, v)) elems)"
  have "map fst ?kvs = rev (map idGetter elems)" by (simp add: rev_map o_def)
  then have d: "distinct (map fst ?kvs)" using assms by (simp only: distinct_rev ids_ok_def)
  have "map_of ?kvs k = Some v \<longleftrightarrow> map_find (projr (Index idGetter elems)) k = Some v" for v
    unfolding map_of_eq_Some_iff [OF d] find_projr_Index(1) [OF assms] by auto
  then have "map_of ?kvs k = map_find (projr (Index idGetter elems)) k" by (rule option_ext)
  then have "map_find (patch idGetter elems [] []) k = map_find (projr (Index idGetter elems)) k"
    by (simp add: find_patch split: option.split)
  then show "rel_option alike (map_find (patch idGetter elems [] []) k) (map_find (projr (Index idGetter elems)) k)"
    by (simp add: alike_def option.rel_refl)
qed

lemma unchanged_alike:
  assumes "map_ok old" and "keyed idGetter new" and "upserts same old new = []"
    and "removals old new = []"
  shows "maps_alike old new"
  unfolding maps_alike_def
proof
  fix k
  have "rel_option same (map_find old k) (map_find new k)"
    using assms(3,4) no_changes [OF assms(1,2)] by blast
  then show "rel_option alike (map_find old k) (map_find new k)"
    by (rule option.rel_mono_strong) (simp add: alike_def)
qed

end

lemma in_step_load: "valid_state s \<Longrightarrow> in_step (load (fst s) (snd s)) (tracker_of s)"
  by (simp add: in_step_def load_def tracker_of_def valid_state_def map_ok_patch
      entities.patch_all_alike flows.patch_all_alike)

lemma in_step_alike: "in_step w t \<Longrightarrow> trackers_alike t u \<Longrightarrow> in_step w u"
  unfolding in_step_def trackers_alike_def
  using entities.maps_alike_trans flows.maps_alike_trans by blast

lemma trackers_alike_refl: "trackers_alike t t"
  by (simp add: trackers_alike_def entities.maps_alike_refl flows.maps_alike_refl)

lemma trackers_alike_trans: "trackers_alike t u \<Longrightarrow> trackers_alike u v \<Longrightarrow> trackers_alike t v"
  unfolding trackers_alike_def using entities.maps_alike_trans flows.maps_alike_trans by blast

section \<open>What a covering stream means\<close>

definition encode :: "Message \<Rightarrow> string" where
  "encode m = Normalize (message_text m)"

lemma snapshot_of_call:
  "\<exists>r t. snapshot_of (call_of sub) = encode (Snapshot r t (fst (state_of sub)) (snd (state_of sub)))"
  by (cases sub) (auto simp: encode_def)

lemma snapshot_meaning:
  assumes "list_all (\<lambda>sub. finite_state (state_of sub)) subs" and "n < length subs"
  shows "\<exists>m. snapshot_of (call_of (subs ! n)) = encode m \<and> message_finite m \<and>
    (\<forall>w. fold receive_message [m] w = Some (load (fst (state_of (subs ! n))) (snd (state_of (subs ! n)))))"
  using snapshot_of_call [of "subs ! n"] assms by (force simp: list_all_length finite_state_def)

lemma in_step_snapshot:
  "sound subs \<Longrightarrow> n < length subs \<Longrightarrow>
    in_step (load (fst (state_of (subs ! n))) (snd (state_of (subs ! n)))) (tracker_of (state_of (subs ! n)))"
  by (rule in_step_load) (simp add: sound_def list_all_length)

lemma covers_meaning:
  assumes "covers (map call_of subs) xs n" and "sound subs" and "list_all (\<lambda>sub. finite_state (state_of sub)) subs"
  shows "\<exists>ms w. xs = map encode ms \<and> list_all message_finite ms \<and> fold receive_message ms None = Some w \<and>
    in_step w (tracker_of (state_of (subs ! (n - 1))))"
  using assms(1)
proof (induction rule: covers.induct)
  case (first n)
  then have n: "n - 1 < length subs" by simp
  obtain m where "snapshot_of (call_of (subs ! (n - 1))) = encode m" "message_finite m"
    "\<And>w. fold receive_message [m] w = Some (load (fst (state_of (subs ! (n - 1)))) (snd (state_of (subs ! (n - 1)))))"
    using snapshot_meaning [OF assms(3) n] by auto
  then show ?case using in_step_snapshot [OF assms(2) n] n by (intro exI [of _ "[m]"]) auto
next
  case (again xs k n)
  then obtain ms where xs: "xs = map encode ms" "list_all message_finite ms" by blast
  have n: "n - 1 < length subs" using again covers_bounds [OF again.hyps(1)] by simp
  obtain m where "snapshot_of (call_of (subs ! (n - 1))) = encode m" "message_finite m"
    "\<And>w. fold receive_message [m] w = Some (load (fst (state_of (subs ! (n - 1)))) (snd (state_of (subs ! (n - 1)))))"
    using snapshot_meaning [OF assms(3) n] by auto
  then show ?case using in_step_snapshot [OF assms(2) n] n xs by (intro exI [of _ "ms @ [m]"]) auto
next
  case (change xs n json snapshot)
  then obtain ms w where ms: "xs = map encode ms" "list_all message_finite ms" "fold receive_message ms None = Some w"
    "in_step w (tracker_of (state_of (subs ! (n - 1))))" by blast
  have n: "0 < n" "n < length subs" using covers_bounds [OF change.hyps(1)] change.hyps(2) by simp_all
  then obtain r t d es fs where sub: "subs ! n = Sub_Delta r t d es fs" and json: "json = BuildDeltaMessage r t d"
    using change.hyps(3) by (cases "subs ! n") auto
  then have "leads_to d (state_of (subs ! (n - 1))) (es, fs)"
    using assms(2) n unfolding sound_def by blast
  then have "in_step (apply_delta d w) (tracker_of (es, fs))" "set (entityUpserts d) \<subseteq> set es"
    using ms(4) by (simp_all add: leads_to_def)
  moreover have "finite_state (es, fs)" using assms(3) n(2) sub by (auto simp: list_all_length)
  ultimately show ?case
    using ms sub json by (intro exI [of _ "ms @ [Change r t d]"] exI [of _ "apply_delta d w"])
      (auto simp: encode_def finite_state_def list_all_iff)
qed

section \<open>The controller's invariant\<close>

definition history_ok :: "Submission list \<Rightarrow> StateDeltaTracker \<Rightarrow> accepted list \<Rightarrow> bool" where
  "history_ok subs tracker accs \<longleftrightarrow>
     sound subs \<and> starts_with_snapshot (map call_of subs) \<and> tracker_ok tracker \<and>
     (\<forall>sub \<in> set subs. state_of sub \<in> set accs) \<and>
     (if accs = [] then subs = [] \<and> \<not> mInitialized tracker
      else subs \<noteq> [] \<and> valid_state (last accs) \<and> tracker = tracker_of (last accs) \<and>
        trackers_alike (tracker_of (state_of (last subs))) tracker)"

definition controller_ok :: "TcpClientConfig \<Rightarrow> Controller \<Rightarrow> accepted list \<Rightarrow> bool" where
  "controller_ok config c accs \<longleftrightarrow>
     client_reachable config (mClient c) \<and>
     (\<exists>subs. g_calls (mClient c) = map call_of subs \<and> history_ok subs (mDeltaTracker c) accs)"

text \<open>
  The runs of a controller, with the states it has accepted, oldest first: submissions of any
  states by \<open>SubmitCurrentState\<close>, rejected ones included; direct calls of \<open>SubmitInitial\<close> and
  \<open>SubmitDelta\<close>; any behaviour of the network and of the worker thread (with the lines it hands over);
  and the application of effects. A direct \<open>SubmitDelta\<close> is made with a change list that leads from
  the last accepted state to the one given with it. A direct call that is rejected is one whose
  entities are rejected, or comes before any state was accepted: one rejected for its flows leaves
  the tracker with entities that were never sent (\<open>rejected_states\<close> in \<open>DeltaTracker\<close>), and
  what is submitted after it no longer reaches the peer.
\<close>

inductive controls :: "TcpClientConfig \<Rightarrow> Controller \<Rightarrow> accepted list \<Rightarrow> bool" for config where
  created: "new_controller config = Inr c \<Longrightarrow> controls config c []"
| accepted: "controls config c accs \<Longrightarrow> SubmitCurrentState config r t es fs c = (Inr outcome, c') \<Longrightarrow>
    controls config c' (accs @ [(es, fs)])"
| rejected: "controls config c accs \<Longrightarrow> SubmitCurrentState config r t es fs c = (Inl e, c') \<Longrightarrow>
    controls config c' accs"
| full: "controls config c accs \<Longrightarrow> SubmitInitial r t es fs c = (Inr (), c') \<Longrightarrow>
    controls config c' (accs @ [(es, fs)])"
| full_rejected: "controls config c accs \<Longrightarrow> SubmitInitial r t es fs c = (Inl e, c') \<Longrightarrow>
    accs = [] \<or> \<not> ids_ok ent_entityId es \<Longrightarrow> controls config c' accs"
| change: "controls config c accs \<Longrightarrow> accs \<noteq> [] \<Longrightarrow> leads_to d (last accs) (es, fs) \<Longrightarrow>
    SubmitDelta config r t d es fs c = (Inr queued, c') \<Longrightarrow> controls config c' (accs @ [(es, fs)])"
| change_rejected: "controls config c accs \<Longrightarrow> SubmitDelta config r t d es fs c = (Inl e, c') \<Longrightarrow>
    accs = [] \<or> \<not> ids_ok ent_entityId es \<Longrightarrow> controls config c' accs"
| network: "controls config c accs \<Longrightarrow> client_step config (mClient c) client \<Longrightarrow>
    g_calls client = g_calls (mClient c) \<Longrightarrow>
    controls config (handle_lines (drop (length (g_lines (mClient c))) (g_lines client)) (c\<lparr>mClient := client\<rparr>)) accs"
| effects: "controls config c accs \<Longrightarrow> controls config (c\<lparr>mPendingEffects := []\<rparr>) accs"
| set_error_handler: "controls config c accs \<Longrightarrow> controls config (SetEffectErrorHandler handler c) accs"

lemma handle_lines_frame:
  "mClient (handle_lines ls c) = mClient c \<and> mDeltaTracker (handle_lines ls c) = mDeltaTracker c"
proof (induction ls arbitrary: c)
  case Nil
  then show ?case by (simp add: handle_lines_def)
next
  case (Cons l ls)
  have "mClient (snd (OnJsonLine l c)) = mClient c \<and> mDeltaTracker (snd (OnJsonLine l c)) = mDeltaTracker c"
    by (auto simp: OnJsonLine_def Let_def split: sum.split prod.split)
  then show ?case using Cons [of "snd (OnJsonLine l c)"] by (simp add: handle_lines_def)
qed

lemma controller_ok_frame:
  "controller_ok config c accs \<Longrightarrow> mClient c' = mClient c \<Longrightarrow> mDeltaTracker c' = mDeltaTracker c \<Longrightarrow>
    controller_ok config c' accs"
  by (simp add: controller_ok_def)

lemma controller_ok_client:
  assumes "controller_ok config c accs" and "client_step config (mClient c) client"
    and "g_calls client = g_calls (mClient c)"
  shows "controller_ok config (c\<lparr>mClient := client\<rparr>) accs"
  using assms client_reachable.stepped [of config "mClient c" client] by (simp add: controller_ok_def)

lemma Reset_cases:
  "Reset es fs tracker =
    (if \<not> ids_ok ent_entityId es then (Inl bad_state, tracker)
     else if \<not> ids_ok flow_flowId fs then (Inl bad_state, tracker\<lparr>mEntities := projr (Index ent_entityId es)\<rparr>)
     else (Inr (), tracker_of (es, fs)))"
  using projr_Index [of ent_entityId es] projr_Index [of flow_flowId fs]
    Index_bad [of ent_entityId es] Index_bad [of flow_flowId fs]
  by (auto simp: Reset_def tracker_of_def Let_def split: sum.split)

lemma tracker_ok_tracker_of: "valid_state s \<Longrightarrow> tracker_ok (tracker_of s)"
  by (simp add: tracker_ok_def tracker_of_def valid_state_def find_projr_Index(3))

lemma sound_snoc_initial: "sound subs \<Longrightarrow> valid_state (es, fs) \<Longrightarrow> sound (subs @ [Sub_Initial r t es fs])"
  by (auto simp: sound_def nth_append split: if_splits)

lemma sound_snoc_delta:
  assumes "sound subs" and "valid_state (es, fs)" and "subs \<noteq> []"
    and "leads_to d (state_of (last subs)) (es, fs)"
  shows "sound (subs @ [Sub_Delta r t d es fs])"
  using assms by (auto simp: sound_def nth_append last_conv_nth less_Suc_eq split: if_splits)

text \<open>A valid state submitted in full: the history gets a full snapshot of it.\<close>

lemma controller_ok_initial:
  assumes "controller_ok config c accs" and "valid_state (es, fs)"
  shows "controller_ok config (c\<lparr>mDeltaTracker := tracker_of (es, fs),
    mClient := QueueInitial (BuildInitMessage r t es fs) (mClient c)\<rparr>) (accs @ [(es, fs)])"
proof -
  obtain subs where subs: "g_calls (mClient c) = map call_of subs" "sound subs" "starts_with_snapshot (map call_of subs)"
    "\<forall>sub \<in> set subs. state_of sub \<in> set accs"
    and reach: "client_reachable config (mClient c)"
    using assms(1) by (auto simp: controller_ok_def history_ok_def)
  let ?subs = "subs @ [Sub_Initial r t es fs]"
  have "client_reachable config (QueueInitial (BuildInitMessage r t es fs) (mClient c))"
    using reach initial by (rule stepped)
  moreover have "starts_with_snapshot (map call_of ?subs)"
    using subs(3) by (cases subs) (auto simp: starts_with_snapshot_def split: queue_call.splits)
  moreover have "g_calls (QueueInitial (BuildInitMessage r t es fs) (mClient c)) = map call_of ?subs"
    by (simp add: QueueInitial_def subs(1))
  moreover have "sound ?subs" using subs(2) assms(2) by (rule sound_snoc_initial)
  ultimately show ?thesis
    unfolding controller_ok_def history_ok_def
    using assms(2) tracker_ok_tracker_of [OF assms(2)] trackers_alike_refl subs(4)
    by (auto intro!: exI [of _ ?subs])
qed

lemma Update_valid:
  assumes "Update es fs tracker = (Inr delta, tracker')"
  shows "valid_state (es, fs)" and "tracker' = tracker_of (es, fs)"
  using assms by (auto simp: Update_cases valid_state_def tracker_of_def Let_def split: if_splits)

lemma Update_leads_to:
  assumes "Update es fs (tracker_of s) = (Inr delta, tracker')" and "valid_state s"
  shows "leads_to delta s (es, fs)"
proof -
  note u = Update_Inr [OF assms(1)] and v = Update_valid [OF assms(1)]
  have ok: "tracker_ok (tracker_of s)" using assms(2) by (rule tracker_ok_tracker_of)
  have "map_ok (projr (Index ent_entityId es))" using find_projr_Index(3) [OF u(1)] by (simp add: keyed_def)
  then have "set (entityUpserts delta) \<subseteq> set es"
    by (auto simp: u(6) set_upserts find_projr_Index(1) [OF u(1)])
  moreover have "in_step (apply_delta delta w) (tracker_of (es, fs))" if "in_step w (tracker_of s)" for w
    using in_step_Update [OF that ok assms(1)] v(2) by simp
  ultimately show ?thesis by (simp add: leads_to_def)
qed

text \<open>A change list that leads to the new state: the history gets it with a snapshot of that state.\<close>

lemma controller_ok_delta:
  assumes "controller_ok config c accs" and "accs \<noteq> []" and "valid_state (es, fs)"
    and "leads_to d (last accs) (es, fs)"
  shows "controller_ok config (c\<lparr>mDeltaTracker := tracker_of (es, fs),
    mClient := snd (QueueDelta config (BuildDeltaMessage r t d)
      (BuildInitMessage (r @ ''-resync'') t es fs) (mClient c))\<rparr>) (accs @ [(es, fs)])"
proof -
  obtain subs where subs: "g_calls (mClient c) = map call_of subs" "sound subs" "starts_with_snapshot (map call_of subs)"
    "subs \<noteq> []" "trackers_alike (tracker_of (state_of (last subs))) (tracker_of (last accs))"
    "\<forall>sub \<in> set subs. state_of sub \<in> set accs"
    and reach: "client_reachable config (mClient c)"
    using assms(1,2) by (auto simp: controller_ok_def history_ok_def)
  let ?subs = "subs @ [Sub_Delta r t d es fs]"
  have "leads_to d (state_of (last subs)) (es, fs)"
    using assms(4) in_step_alike [OF _ subs(5)] by (auto simp: leads_to_def)
  then have "sound ?subs" using subs(2,4) assms(3) by (intro sound_snoc_delta)
  moreover have "starts_with_snapshot (map call_of ?subs)"
    using subs(3,4) by (cases subs) (auto simp: starts_with_snapshot_def split: queue_call.splits)
  moreover have "client_reachable config (snd (QueueDelta config (BuildDeltaMessage r t d)
      (BuildInitMessage (r @ ''-resync'') t es fs) (mClient c)))"
    using reach delta by (rule stepped)
  moreover have "g_calls (snd (QueueDelta config (BuildDeltaMessage r t d)
      (BuildInitMessage (r @ ''-resync'') t es fs) (mClient c))) = map call_of ?subs"
    by (simp add: QueueDelta_def Let_def subs(1))
  ultimately show ?thesis
    unfolding controller_ok_def history_ok_def
    using assms(3) tracker_ok_tracker_of [OF assms(3)] trackers_alike_refl subs(6)
    by (auto intro!: exI [of _ ?subs])
qed

lemma controller_ok_unchanged:
  assumes "controller_ok config c accs" and "accs \<noteq> []"
    and "Update es fs (mDeltaTracker c) = (Inr delta, tracker')" and "Empty delta"
  shows "controller_ok config (c\<lparr>mDeltaTracker := tracker_of (es, fs)\<rparr>) (accs @ [(es, fs)])"
proof -
  note v = Update_valid [OF assms(3)] and u = Update_Inr [OF assms(3)]
  have "tracker_ok (mDeltaTracker c)" using assms(1) by (auto simp: controller_ok_def history_ok_def)
  then have "trackers_alike (mDeltaTracker c) (tracker_of (es, fs))"
    using assms(4) find_projr_Index(3) [OF u(1)] find_projr_Index(3) [OF u(2)]
    by (simp add: trackers_alike_def tracker_of_def tracker_ok_def keyed_def Empty_def u(6-9)
        entities.unchanged_alike flows.unchanged_alike)
  moreover obtain subs where "client_reachable config (mClient c)" "g_calls (mClient c) = map call_of subs"
    and h: "history_ok subs (mDeltaTracker c) accs"
    using assms(1) by (auto simp: controller_ok_def)
  moreover have "trackers_alike (tracker_of (state_of (last subs))) (mDeltaTracker c)"
    using h assms(2) by (auto simp: history_ok_def)
  ultimately show ?thesis
    using assms(2) v tracker_ok_tracker_of trackers_alike_trans
    unfolding controller_ok_def history_ok_def by (auto intro!: exI [of _ subs])
qed

lemma Reset_valid: "valid_state (es, fs) \<Longrightarrow> Reset es fs tracker = (Inr (), tracker_of (es, fs))"
  by (simp add: Reset_cases valid_state_def)

lemma Reset_invalid:
  assumes "\<not> valid_state (es, fs)"
  shows "fst (Reset es fs tracker) = Inl bad_state"
  using assms by (auto simp: Reset_cases valid_state_def)

text \<open>A rejected \<open>Reset\<close> that keeps the invariant.\<close>

lemma controller_ok_reset_rejected:
  assumes "controller_ok config c accs" and "\<not> valid_state (es, fs)" and "accs = [] \<or> \<not> ids_ok ent_entityId es"
  shows "controller_ok config (c\<lparr>mDeltaTracker := snd (Reset es fs (mDeltaTracker c))\<rparr>) accs"
proof (cases "ids_ok ent_entityId es")
  case True
  then have "\<not> ids_ok flow_flowId fs" "accs = []" using assms(2,3) by (simp_all add: valid_state_def)
  then show ?thesis
    using assms(1) find_projr_Index(3) [OF True] True
    by (auto simp: Reset_cases controller_ok_def history_ok_def tracker_ok_def)
next
  case False
  then show ?thesis using assms(1) by (simp add: Reset_cases)
qed

lemma Update_bad_or_valid:
  obtains "\<not> valid_state (es, fs)" "Update es fs tracker = (Inl bad_state, tracker)"
  | delta where "valid_state (es, fs)" "Update es fs tracker = (Inr delta, tracker_of (es, fs))"
proof (cases "valid_state (es, fs)")
  case True
  then obtain delta t where "Update es fs tracker = (Inr delta, t)"
    using Update_ok unfolding valid_state_def by fastforce
  then show ?thesis using that(2) Update_valid True by blast
next
  case False
  then have "Update es fs tracker = (Inl bad_state, tracker)"
    by (auto simp: Update_cases valid_state_def)
  then show ?thesis using that(1) False by blast
qed

lemma controller_ok_initialized:
  "controller_ok config c accs \<Longrightarrow> mInitialized (mDeltaTracker c) \<longleftrightarrow> accs \<noteq> []"
  by (auto simp: controller_ok_def history_ok_def tracker_of_def split: if_splits)

lemma SubmitInitial_valid:
  "valid_state (es, fs) \<Longrightarrow> SubmitInitial r t es fs c =
    (Inr (), c\<lparr>mDeltaTracker := tracker_of (es, fs), mClient := QueueInitial (BuildInitMessage r t es fs) (mClient c)\<rparr>)"
  by (simp add: SubmitInitial_def Reset_valid)

lemma SubmitInitial_invalid:
  "\<not> valid_state (es, fs) \<Longrightarrow> SubmitInitial r t es fs c =
    (Inl bad_state, c\<lparr>mDeltaTracker := snd (Reset es fs (mDeltaTracker c))\<rparr>)"
  using Reset_invalid [of es fs "mDeltaTracker c"] by (auto simp: SubmitInitial_def split: prod.split)

lemma SubmitDelta_valid:
  "valid_state (es, fs) \<Longrightarrow> SubmitDelta config r t d es fs c =
    (Inr (fst (QueueDelta config (BuildDeltaMessage r t d) (BuildInitMessage (r @ ''-resync'') t es fs) (mClient c))),
     c\<lparr>mDeltaTracker := tracker_of (es, fs), mClient := snd (QueueDelta config (BuildDeltaMessage r t d)
       (BuildInitMessage (r @ ''-resync'') t es fs) (mClient c))\<rparr>)"
  by (simp add: SubmitDelta_def Reset_valid case_prod_beta)

lemma SubmitDelta_invalid:
  "\<not> valid_state (es, fs) \<Longrightarrow> SubmitDelta config r t d es fs c =
    (Inl bad_state, c\<lparr>mDeltaTracker := snd (Reset es fs (mDeltaTracker c))\<rparr>)"
  using Reset_invalid [of es fs "mDeltaTracker c"] by (auto simp: SubmitDelta_def split: prod.split)

lemma controller_ok_submit:
  assumes "controller_ok config c accs"
  shows "case SubmitCurrentState config r t es fs c of
      (Inr outcome, c') \<Rightarrow> controller_ok config c' (accs @ [(es, fs)]) \<and> valid_state (es, fs)
    | (Inl e, c') \<Rightarrow> controller_ok config c' accs \<and> \<not> valid_state (es, fs)"
proof (cases "mInitialized (mDeltaTracker c)")
  case False
  then have accs: "accs = []" using controller_ok_initialized [OF assms] by blast
  show ?thesis
  proof (cases "valid_state (es, fs)")
    case True
    then show ?thesis
      using False controller_ok_initial [OF assms True]
      by (simp add: SubmitCurrentState_def Initialized_def SubmitInitial_valid)
  next
    case invalid: False
    then show ?thesis
      using False controller_ok_reset_rejected [OF assms invalid] accs
      by (simp add: SubmitCurrentState_def Initialized_def SubmitInitial_invalid)
  qed
next
  case True
  then have accs: "accs \<noteq> []" using controller_ok_initialized [OF assms] by blast
  then have last: "mDeltaTracker c = tracker_of (last accs)" "valid_state (last accs)"
    using assms by (auto simp: controller_ok_def history_ok_def)
  show ?thesis
  proof (cases rule: Update_bad_or_valid [of es fs "mDeltaTracker c"])
    case 1
    then show ?thesis using True assms by (simp add: SubmitCurrentState_def Initialized_def)
  next
    case (2 delta)
    let ?c = "c\<lparr>mDeltaTracker := tracker_of (es, fs)\<rparr>"
    show ?thesis
    proof (cases "Empty delta")
      case True
      then show ?thesis
        using \<open>mInitialized (mDeltaTracker c)\<close> 2 controller_ok_unchanged [OF assms accs 2(2) True]
        by (simp add: SubmitCurrentState_def Initialized_def)
    next
      case False
      have "leads_to delta (last accs) (es, fs)"
        using 2(2) Update_leads_to last by simp
      from controller_ok_delta [OF assms accs 2(1) this, of r t] show ?thesis
        using \<open>mInitialized (mDeltaTracker c)\<close> 2 False
        by (simp add: SubmitCurrentState_def Initialized_def SubmitDelta_valid)
    qed
  qed
qed

lemma controller_ok_controls: "controls config c accs \<Longrightarrow> controller_ok config c accs"
proof (induction rule: controls.induct)
  case (created c)
  then obtain client where c: "new_client config = Inr client" "mClient c = SetLineHandler True client"
    "mDeltaTracker c = new_tracker"
    by (auto simp: new_controller_def rbind_eq_Inr)
  then have "client_reachable config (mClient c)"
    using client_reachable.stepped [OF client_reachable.created client_step.set_handler] by simp
  moreover have "g_calls (mClient c) = []"
    using c by (auto simp: new_client_def SetLineHandler_def split: if_splits)
  ultimately show ?case
    using tracker_ok_new
    by (simp add: controller_ok_def history_ok_def c(3) sound_def starts_with_snapshot_def new_tracker_def)
next
  case (accepted c accs r t es fs outcome c')
  then show ?case using controller_ok_submit [OF accepted.IH, where r = r and t = t and es = es and fs = fs] by simp
next
  case (rejected c accs r t es fs e c')
  then show ?case using controller_ok_submit [OF rejected.IH, where r = r and t = t and es = es and fs = fs] by simp
next
  case (full c accs r t es fs c')
  then have valid: "valid_state (es, fs)" using SubmitInitial_invalid [of es fs r t c] by auto
  show ?case
    using controller_ok_initial [OF full.IH valid, of r t] full.hyps(2) SubmitInitial_valid [OF valid, of r t c] by simp
next
  case (full_rejected c accs r t es fs e c')
  then have invalid: "\<not> valid_state (es, fs)" using SubmitInitial_valid [of es fs r t c] by auto
  show ?case
    using controller_ok_reset_rejected [OF full_rejected.IH invalid full_rejected.hyps(3)] full_rejected.hyps(2)
      SubmitInitial_invalid [OF invalid, of r t c] by simp
next
  case (change c accs d es fs r t queued c')
  then have valid: "valid_state (es, fs)" using SubmitDelta_invalid [of es fs config r t d c] by auto
  show ?case
    using controller_ok_delta [OF change.IH change.hyps(2) valid change.hyps(3), of r t] change.hyps(4)
      SubmitDelta_valid [OF valid, of config r t d c] by simp
next
  case (change_rejected c accs r t d es fs e c')
  then have invalid: "\<not> valid_state (es, fs)" using SubmitDelta_valid [of es fs config r t d c] by auto
  show ?case
    using controller_ok_reset_rejected [OF change_rejected.IH invalid change_rejected.hyps(3)] change_rejected.hyps(2)
      SubmitDelta_invalid [OF invalid, of config r t d c] by simp
next
  case (network c accs client)
  then have "controller_ok config (c\<lparr>mClient := client\<rparr>) accs" by (intro controller_ok_client)
  then show ?case by (rule controller_ok_frame) (simp_all add: handle_lines_frame)
next
  case (effects c accs)
  from effects.IH show ?case by (rule controller_ok_frame) simp_all
next
  case (set_error_handler c accs handler)
  from set_error_handler.IH show ?case by (rule controller_ok_frame) (simp_all add: SetEffectErrorHandler_def)
qed

text \<open>The waiting effects of every run are as \<open>OnJsonLine_effects\<close> assumes.\<close>

lemma Submit_pending:
  "mPendingEffects (snd (SubmitInitial r t es fs c)) = mPendingEffects c"
  "mPendingEffects (snd (SubmitDelta config r t d es fs c)) = mPendingEffects c"
  "mPendingEffects (snd (SubmitCurrentState config r t es fs c)) = mPendingEffects c"
  by (auto simp: SubmitCurrentState_def SubmitInitial_def SubmitDelta_def Let_def split: sum.split prod.split)

lemma pending_ok_controls: "controls config c accs \<Longrightarrow> pending_ok (mPendingEffects c)"
proof (induction rule: controls.induct)
  case (created c)
  then show ?case by (auto simp: new_controller_def rbind_eq_Inr pending_ok_def)
next
  case (accepted c accs r t es fs outcome c')
  then show ?case using Submit_pending(3) [of config r t es fs c] by simp
next
  case (rejected c accs r t es fs e c')
  then show ?case using Submit_pending(3) [of config r t es fs c] by simp
next
  case (full c accs r t es fs c')
  then show ?case using Submit_pending(1) [of r t es fs c] by simp
next
  case (full_rejected c accs r t es fs e c')
  then show ?case using Submit_pending(1) [of r t es fs c] by simp
next
  case (change c accs d es fs r t queued c')
  then show ?case using Submit_pending(2) [of config r t d es fs c] by simp
next
  case (change_rejected c accs r t d es fs e c')
  then show ?case using Submit_pending(2) [of config r t d es fs c] by simp
next
  case (network c accs client)
  then show ?case by (intro pending_ok_handle_lines) simp
next
  case (effects c accs)
  then show ?case by (simp add: pending_ok_def)
next
  case (set_error_handler c accs handler)
  then show ?case by (simp add: SetEffectErrorHandler_def)
qed

section \<open>The end-to-end property\<close>

lemma Build_nonempty: "BuildInitMessage r t es fs \<noteq> []" "BuildDeltaMessage r t d \<noteq> []"
  by (simp_all add: BuildInitMessage_def BuildDeltaMessage_def WriteEnvelope_def)

lemma plain_text_message: "plain_text (message_text m)"
  using printable_no_newline [OF printable_messages(1)] printable_no_newline [OF printable_messages(2)]
    Build_nonempty by (cases m) (simp_all add: plain_text_def one_line_def)

lemma plain_call_call_of: "plain_call (call_of sub)"
  using plain_text_message [of "Snapshot _ _ _ _"] plain_text_message [of "Change _ _ _"] by (cases sub) auto

lemma butlast_encode: "butlast (encode m) = message_text m"
  using plain_text_message [of m] by (simp add: encode_def plain_text_def Normalize_one_line)

lemma in_step_tracker_of:
  assumes "in_step w (tracker_of (es, fs))" and "valid_state (es, fs)"
  shows "(\<forall>k. map_has (w_entities w) k \<longleftrightarrow> k \<in> ent_entityId ` set es) \<and>
    (\<forall>e \<in> set es. \<exists>b. map_find (w_entities w) (ent_entityId e) = Some b \<and> (b = e \<or> Same_Entity b e)) \<and>
    (\<forall>k. map_has (w_flows w) k \<longleftrightarrow> k \<in> flow_flowId ` set fs) \<and>
    (\<forall>f \<in> set fs. map_find (w_flows w) (flow_flowId f) = Some f)"
proof -
  have ids: "ids_ok ent_entityId es" "ids_ok flow_flowId fs" using assms(2) by (simp_all add: valid_state_def)
  have "entities.maps_alike (w_entities w) (projr (Index ent_entityId es))"
    "flows.maps_alike (w_flows w) (projr (Index flow_flowId fs))"
    using assms(1) by (simp_all add: in_step_def tracker_of_def)
  then show ?thesis
    using entities.maps_alike_Index [OF _ ids(1)] flows.maps_alike_Index [OF _ ids(2)]
    by (simp add: Same_Flow_eq)
qed

lemma peer_of_in_step:
  assumes "in_step w (tracker_of (es, fs))" and "valid_state (es, fs)"
  shows "peer_of w = (described ent_entityId entity_json es, described flow_flowId flow_json fs)"
proof -
  note w = in_step_tracker_of [OF assms]
  have "objects_of entity_json (w_entities w) = described ent_entityId entity_json es"
    using assms(2) w Same_Entity_json by (intro objects_described) (auto simp: valid_state_def)
  moreover have "objects_of flow_json (w_flows w) = described flow_flowId flow_json fs"
    using assms(2) w by (intro objects_described) (auto simp: valid_state_def)
  ultimately show ?thesis by (simp add: peer_of_def)
qed

text \<open>The lines the peer has read, and the only JSON values they denote.\<close>

lemma peer_in_step:
  assumes "controls config c (accs @ [(es, fs)])" and "list_all finite_state (accs @ [(es, fs)])"
    and "worker (mClient c) = Serving" and "current (mClient c) = []" and "mPending (mClient c) = []"
  shows "\<exists>vs. (\<forall>ws. list_all2 json_text (fst (DispatchLines True (g_bytes (mClient c)))) ws \<longleftrightarrow> ws = vs) \<and>
    fold peer_step vs None = Some (described ent_entityId entity_json es, described flow_flowId flow_json fs)"
proof -
  let ?cl = "mClient c"
  obtain subs where reach: "client_reachable config ?cl" and calls: "g_calls ?cl = map call_of subs"
    and h: "history_ok subs (mDeltaTracker c) (accs @ [(es, fs)])"
    using controller_ok_controls [OF assms(1)] by (auto simp: controller_ok_def)
  from h have h': "sound subs" "starts_with_snapshot (map call_of subs)" "subs \<noteq> []" "valid_state (es, fs)"
    "trackers_alike (tracker_of (state_of (last subs))) (tracker_of (es, fs))"
    "\<forall>sub \<in> set subs. state_of sub \<in> set (accs @ [(es, fs)])"
    by (auto simp: history_ok_def)
  have "list_all (\<lambda>sub. finite_state (state_of sub)) subs"
    using assms(2) h'(6) unfolding list_all_iff by blast
  moreover have "stream_ok ?cl" using stream_ok_reachable [OF reach] h'(2) by (simp add: calls)
  then have "covers (map call_of subs) (g_wire ?cl) (length subs)"
    using assms(3-5) h'(3) by (simp add: stream_ok_def messages_def calls)
  ultimately obtain ms w where ms: "g_wire ?cl = map encode ms" "list_all message_finite ms"
    "fold receive_message ms None = Some w" "in_step w (tracker_of (state_of (last subs)))"
    using covers_meaning h'(1,3) by (fastforce simp: last_conv_nth)
  have "list_all plain_call (g_calls ?cl)"
    by (simp add: calls list_all_iff plain_call_call_of)
  with bytes_ok_reachable [OF reach] obtain part where "g_bytes ?cl = concat (g_wire ?cl) @ part"
    "newline \<notin> set part" "list_all line_message (g_wire ?cl)"
    by (auto simp: bytes_ok_def)
  then have "fst (DispatchLines True (g_bytes ?cl)) = map message_text ms"
    by (simp add: read_line_messages ms(1) butlast_encode)
  moreover have "list_all2 json_text (map message_text ms) (map message_json ms)"
    using ms(2) by (simp add: list_all2_map1 list_all2_map2 list.rel_refl_strong message_text_json list_all_iff)
  moreover have "fold peer_step (map message_json ms) None = Some (peer_of w)"
    using peer_follows_receiver [of None ms] ms(3) by simp
  moreover have "peer_of w = (described ent_entityId entity_json es, described flow_flowId flow_json fs)"
    using peer_of_in_step [OF in_step_alike [OF ms(4) h'(5)] h'(4)] .
  ultimately show ?thesis using json_texts_unique by (intro exI [of _ "map message_json ms"]) auto
qed

text \<open>
  C2. Whatever \<open>SubmitCurrentState\<close> rejected, and whatever was lost, overflowed or cut short before:
  when a connection is served and nothing waits to be sent, the lines the peer has read on it are
  JSON texts with exactly one reading, and a peer that starts with nothing and applies these JSON
  values holds exactly the objects that describe the last accepted state: one for each of
  its entities and flows, under its identifier, with every field as submitted (doubles to the 15
  significant digits that are sent), and no others. The doubles of the accepted states are
  finite; direct calls of \<open>SubmitInitial\<close> and \<open>SubmitDelta\<close> are as \<open>controls\<close> says.
\<close>

theorem peer_holds_last_accepted_state:
  assumes "controls config c (accs @ [(es, fs)])" and "list_all finite_state (accs @ [(es, fs)])"
    and "worker (mClient c) = Serving" and "current (mClient c) = []" and "mPending (mClient c) = []"
  shows "\<exists>vs. (\<forall>ws. list_all2 json_text (fst (DispatchLines True (g_bytes (mClient c)))) ws \<longleftrightarrow> ws = vs) \<and>
    fold peer_step vs None = Some (described ent_entityId entity_json es, described flow_flowId flow_json fs)"
  using assms by (rule peer_in_step)

text \<open>A run that submits one entity, connects and sends the snapshot.\<close>

definition submitted :: Controller where
  "submitted = snd (SubmitCurrentState small_config ''r'' 0 one_entity [] (projr (new_controller small_config)))"

definition snapshot_sent :: Client where
  "snapshot_sent = sent_step (Normalize (BuildInitMessage ''r'' 0 one_entity []))
     (open_step (connected_step (Start (mClient submitted))))"

lemma one_valid: "valid_state (one_entity, [])"
  by (simp add: valid_state_def one_ids)

lemma submitted_eval:
  "mClient submitted = QueueInitial (BuildInitMessage ''r'' 0 one_entity [])
     (SetLineHandler True (projr (new_client small_config)))"
  "controls small_config submitted [(one_entity, [])]"
proof -
  let ?c = "projr (new_controller small_config)"
  have c: "new_controller small_config = Inr ?c" "mDeltaTracker ?c = new_tracker"
    "mClient ?c = SetLineHandler True (projr (new_client small_config))"
    by (simp_all add: new_controller_def new_client_def small_config_def default_config_def)
  have "SubmitCurrentState small_config ''r'' 0 one_entity [] ?c = (Inr InitialQueued, submitted)"
    and q: "submitted = ?c\<lparr>mDeltaTracker := tracker_of (one_entity, []),
      mClient := QueueInitial (BuildInitMessage ''r'' 0 one_entity []) (mClient ?c)\<rparr>"
    by (simp_all add: submitted_def SubmitCurrentState_def Initialized_def c(2) SubmitInitial_valid [OF one_valid]
        new_tracker_def)
  then show "controls small_config submitted [(one_entity, [])]"
    using controls.accepted [OF controls.created [OF c(1)]] by fastforce
  show "mClient submitted = QueueInitial (BuildInitMessage ''r'' 0 one_entity [])
     (SetLineHandler True (projr (new_client small_config)))" by (simp add: q c(3))
qed

lemma snapshot_sent_controls:
  "controls small_config (submitted\<lparr>mClient := snapshot_sent\<rparr>) [(one_entity, [])]"
proof -
  let ?text = "BuildInitMessage ''r'' 0 one_entity []"
  note evals = submitted_eval(1) new_client_def small_config_def default_config_def client_steps
  have net: "controls small_config (c\<lparr>mClient := client\<rparr>) acc"
    if "controls small_config c acc" "client_step small_config (mClient c) client"
      "g_calls client = g_calls (mClient c)" "g_lines client = g_lines (mClient c)" for c client acc
    using controls.network [OF that(1-3)] that(4) by (simp add: handle_lines_def)
  let ?c1 = "Start (mClient submitted)"
  let ?c2 = "connected_step ?c1" and ?c3 = "open_step (connected_step ?c1)"
  have s1: "client_step small_config (mClient submitted) ?c1"
    by (rule client_step.start) (simp add: evals)
  have s2: "client_step small_config ?c1 ?c2"
    by (rule connects) (simp_all add: evals)
  have s3: "client_step small_config ?c2 ?c3"
    by (rule client_step.opened) (simp add: connected_step_def)
  have "controls small_config (submitted\<lparr>mClient := ?c1\<rparr>) [(one_entity, [])]"
    by (rule net [OF submitted_eval(2) s1]) (simp_all add: evals)
  from net [OF this, of ?c2] s2
  have "controls small_config (submitted\<lparr>mClient := ?c2\<rparr>) [(one_entity, [])]"
    by (simp add: connected_step_def)
  from net [OF this, of ?c3] s3
  have "controls small_config (submitted\<lparr>mClient := ?c3\<rparr>) [(one_entity, [])]"
    by (simp add: connected_step_def open_step_def)
  note c3 = this
  have "worker ?c3 = Serving" "current ?c3 \<noteq> []"
    and "SendAll [Sent (length (Normalize ?text))] (current ?c3) 0 = (Normalize ?text, Some True)"
    by (simp_all add: evals)
  then have s4: "client_step small_config ?c3 snapshot_sent"
    unfolding snapshot_sent_def by (rule client_step.sent)
  from net [OF c3, of snapshot_sent] s4 show ?thesis
    by (simp add: snapshot_sent_def sent_step_def)
qed

lemma one_finite: "finite_state (one_entity, [])"
  by (simp add: finite_state_def one_entity_def finite_defs)

lemma one_described: "described ent_entityId entity_json one_entity ''a'' = Some (entity_json (hd one_entity))"
  by (simp add: described_def one_entity_def)

theorem peer_holds_last_accepted_state_witness:
  "\<exists>vs es fs. list_all2 json_text (fst (DispatchLines True (g_bytes snapshot_sent))) vs \<and>
    fold peer_step vs None = Some (es, fs) \<and> es ''a'' = Some (entity_json (hd one_entity)) \<and> es ''b'' = None"
proof -
  have "worker snapshot_sent = Serving" "current snapshot_sent = []" "mPending snapshot_sent = []"
    by (simp_all add: snapshot_sent_def sent_step_def open_step_def)
  moreover have "described ent_entityId entity_json one_entity ''b'' = None"
    by (simp add: described_def one_entity_def)
  ultimately show ?thesis
    using peer_holds_last_accepted_state [where accs = "[]", simplified append_Nil, OF snapshot_sent_controls]
      one_finite one_described by auto
qed

end
