(* ===== verification/ExtensionFacts.thy ===== *)
theory ExtensionFacts
  imports ExtensionTick ExtensionConfigFacts ControllerStream
begin

text \<open>
  What the observers of AFSIM's messages guarantee: an invariant of the extension's state that
  they and every simulation step keep, and the separation of the gate's own decisions from
  what is observed of AFSIM's links.
\<close>

section \<open>What the helpers leave alone\<close>

lemma RecordFlow_frame [simp]:
  "mConfig (RecordFlow time t r m b) = mConfig b"
  "mController (RecordFlow time t r m b) = mController b"
  "mEnuFrame (RecordFlow time t r m b) = mEnuFrame b"
  "mConfiguredDataRates (RecordFlow time t r m b) = mConfiguredDataRates b"
  "mLinkObservations (RecordFlow time t r m b) = mLinkObservations b"
  "mTransmitTimes (RecordFlow time t r m b) = mTransmitTimes b"
  "mExternallyGatedMessages (RecordFlow time t r m b) = mExternallyGatedMessages b"
  "mExternallyDroppedMessages (RecordFlow time t r m b) = mExternallyDroppedMessages b"
  by (simp_all add: RecordFlow_def Let_def split: option.split)

lemma AppendLog_frame [simp]:
  "mConfig (AppendLog l b) = mConfig b"
  "mController (AppendLog l b) = mController b"
  "mEnuFrame (AppendLog l b) = mEnuFrame b"
  "mConfiguredDataRates (AppendLog l b) = mConfiguredDataRates b"
  "mLinkObservations (AppendLog l b) = mLinkObservations b"
  "mTransmitTimes (AppendLog l b) = mTransmitTimes b"
  "mExternallyGatedMessages (AppendLog l b) = mExternallyGatedMessages b"
  "mExternallyDroppedMessages (AppendLog l b) = mExternallyDroppedMessages b"
  "mObservedFlows (AppendLog l b) = mObservedFlows b"
  "mTick (AppendLog l b) = mTick b"
  "mRunId (AppendLog l b) = mRunId b"
  "mStopping (AppendLog l b) = mStopping b"
  by (simp_all add: AppendLog_def)

lemma put_observation_frame [simp]:
  "mConfig (put_observation k ob b) = mConfig b"
  "mController (put_observation k ob b) = mController b"
  "mEnuFrame (put_observation k ob b) = mEnuFrame b"
  "mConfiguredDataRates (put_observation k ob b) = mConfiguredDataRates b"
  "mTransmitTimes (put_observation k ob b) = mTransmitTimes b"
  "mExternallyGatedMessages (put_observation k ob b) = mExternallyGatedMessages b"
  "mExternallyDroppedMessages (put_observation k ob b) = mExternallyDroppedMessages b"
  "mObservedFlows (put_observation k ob b) = mObservedFlows b"
  "mLinkObservations (put_observation k ob b) = map_put k ob (mLinkObservations b)"
  by (simp_all add: put_observation_def)

lemma settle_message_frame [simp]:
  "mConfig (snd (settle_message A time t m gated infer ob b)) = mConfig b"
  "mController (snd (settle_message A time t m gated infer ob b)) = mController b"
  "mEnuFrame (snd (settle_message A time t m gated infer ob b)) = mEnuFrame b"
  "mConfiguredDataRates (snd (settle_message A time t m gated infer ob b)) = mConfiguredDataRates b"
  "mLinkObservations (snd (settle_message A time t m gated infer ob b)) = mLinkObservations b"
  "mExternallyGatedMessages (snd (settle_message A time t m gated infer ob b)) = mExternallyGatedMessages b"
  "mExternallyDroppedMessages (snd (settle_message A time t m gated infer ob b)) = mExternallyDroppedMessages b"
  "mObservedFlows (snd (settle_message A time t m gated infer ob b)) = mObservedFlows b"
  by (simp_all add: settle_message_def split: prod.split)

section \<open>The invariant\<close>

definition ob_ok :: "LinkObservation \<Rightarrow> bool" where
  "ob_ok ob \<longleftrightarrow> d_le (Fin 0) (ob_delayTotalMs ob) \<and> d_le (Fin 0) (ob_lastDelayMs ob) \<and>
     isfinite (ob_lastLossRate ob) \<and> 0 \<le> dval (ob_lastLossRate ob) \<and> dval (ob_lastLossRate ob) \<le> 1"

definition flow_ok :: "FlowKey \<times> ObservedFlow \<Rightarrow> bool" where
  "flow_ok = (\<lambda>(key, f). of_flowId f = flow_id key \<and> of_sourceEntityId f = fst key \<and>
     of_targetEntityId f = fst (snd (snd key)) \<and> of_sourceEntityId f \<noteq> of_targetEntityId f \<and>
     all_digits (fst key) \<and> all_digits (fst (snd (snd key))) \<and>
     64 \<le> of_packetSizeBytes f \<and> 1 \<le> of_intervalMs f \<and> 100 \<le> of_durationMs f)"

definition bridge_ok :: "Bridge \<Rightarrow> bool" where
  "bridge_ok b \<longleftrightarrow>
     valid_config (mConfig b) \<and> list_all (\<lambda>(k, rate). 1 \<le> rate) (mConfiguredDataRates b) \<and>
     list_all (\<lambda>(k, ob). ob_ok ob) (mLinkObservations b) \<and> list_all flow_ok (mObservedFlows b) \<and>
     map_ok (mLinkObservations b) \<and> map_ok (mObservedFlows b) \<and>
     map_ok (mExternallyGatedMessages b) \<and> map_ok (mExternallyDroppedMessages b)"

lemma new_observation_ok: "ob_ok new_observation"
  by (simp add: ob_ok_def new_observation_def d_le_finite)

lemma observation_ok: "bridge_ok b \<Longrightarrow> ob_ok (observation b key)"
  using list_all_find [of "\<lambda>(k, ob). ob_ok ob" "mLinkObservations b" key]
  by (auto simp: bridge_ok_def observation_def new_observation_ok split: option.split)

lemma bridge_ok_put_observation [invariant_intros]:
  "bridge_ok b \<Longrightarrow> ob_ok ob \<Longrightarrow> bridge_ok (put_observation key ob b)"
  by (simp add: bridge_ok_def list_all_put map_ok_put)

lemma bridge_ok_log [invariant_intros]: "bridge_ok b \<Longrightarrow> bridge_ok (AppendLog l b)"
  by (simp add: bridge_ok_def)

text \<open>A message's size is an \<open>int\<close> of 32 bits.\<close>

definition message_ok :: "WsfMessage \<Rightarrow> bool" where
  "message_ok m \<longleftrightarrow> msg_sizeBytes m < 2 ^ 31"

lemma packet_size_ge:
  assumes "n < 2 ^ 31"
  shows "(64 :: u32) \<le> of_int (max 64 n)"
proof -
  have "uint (of_int (max 64 n) :: u32) = max 64 n"
    using assms by (simp add: uint_word_of_int_eq take_bit_int_eq_self)
  then show ?thesis by (simp add: word_le_def)
qed

lemma named_flow_ok:
  assumes "flow_ok (key, g) \<or> g = new_observed_flow" and "fst key \<noteq> fst (snd (snd key))"
    and "all_digits (fst key)" and "all_digits (fst (snd (snd key)))" and "n < 2 ^ 31"
  shows "flow_ok (key, (time_flow time serial (name_flow config key g))\<lparr>of_packetSizeBytes := of_int (max 64 n)\<rparr>)"
proof -
  have named: "flow_id key \<noteq> []" by (simp add: flow_id_def split: prod.split)
  have "of_flowId f = flow_id key \<and> of_sourceEntityId f = fst key \<and> of_targetEntityId f = fst (snd (snd key)) \<and>
      1 \<le> of_intervalMs f \<and> 100 \<le> of_durationMs f"
    if "f = name_flow config key g" for f
    using assms(1,2) named that
    by (auto simp: flow_ok_def name_flow_def new_observed_flow_def Milliseconds_ge)
  then show ?thesis
    using assms(2) assms(3,4) packet_size_ge [OF assms(5)] by (auto simp: flow_ok_def time_flow_def Let_def Milliseconds_ge)
qed

lemma bridge_ok_RecordFlow [invariant_intros]:
  assumes "bridge_ok b" and "message_ok m"
  shows "bridge_ok (RecordFlow time transmitter receiver m b)"
proof -
  have "list_all flow_ok (mObservedFlows (RecordFlow time transmitter receiver m b)) \<and>
    map_ok (mObservedFlows (RecordFlow time transmitter receiver m b))"
    using assms list_all_find [of flow_ok "mObservedFlows b"]
    by (auto simp: RecordFlow_def bridge_ok_def message_ok_def Let_def flow_key_def
        split: option.split intro!: list_all_put map_ok_put named_flow_ok)
  with assms(1) show ?thesis by (simp add: bridge_ok_def)
qed

lemma ob_ok_rate: "ob_ok ob \<Longrightarrow> ob_ok (UpdateObservedDataRate A ob result)"
  by (simp add: UpdateObservedDataRate_def ob_ok_def)

lemma ob_ok_count: "ob_ok (count_completed failed ob) \<longleftrightarrow> ob_ok ob"
  by (simp add: count_completed_def ob_ok_def Let_def)

lemma d_le_0_max: "d_le (Fin 0) (d_max (Fin 0) x)"
  by (rule d_max_ge) simp

lemma ob_ok_delay:
  assumes "ob_ok ob" and "d_le (Fin 0) x"
  shows "ob_ok (ob\<lparr>ob_delayTotalMs := d_add (ob_delayTotalMs ob) x, ob_delaySamples := n\<rparr>)"
  using assms by (simp add: ob_ok_def d_le_0_add)

lemma ob_ok_observed:
  assumes "ob_ok ob"
  shows "ob_ok (fst (UpdateObservedDelayAndRate A time t m infer ob transmitTimes))"
proof (cases "map_find transmitTimes (comm_ptr t, msg_serial m)")
  case None
  then show ?thesis using assms by (simp add: UpdateObservedDelayAndRate_def)
next
  case (Some transmitted)
  have "ob_ok (ob\<lparr>ob_delayTotalMs := d_add (ob_delayTotalMs ob)
      (d_mul (d_max (Fin 0) (d_sub time transmitted)) (Fin 1000)), ob_delaySamples := ob_delaySamples ob + 1\<rparr>)"
    using assms by (intro ob_ok_delay d_le_0_mul d_le_0_max) simp_all
  then show ?thesis using assms Some
    by (simp add: UpdateObservedDelayAndRate_def Let_def) (simp add: ob_ok_def)
qed

lemma ob_ok_settle_message: "ob_ok ob \<Longrightarrow> ob_ok (fst (settle_message A time t m gated infer ob b))"
  using ob_ok_observed [of ob A time t m infer "mTransmitTimes b"]
  by (simp add: settle_message_def case_prod_beta)

lemma bridge_ok_settle_message [invariant_intros]:
  "bridge_ok b \<Longrightarrow> bridge_ok (snd (settle_message A time t m gated infer ob b))"
  by (simp add: bridge_ok_def)

section \<open>The observers keep the invariant\<close>

datatype afsim_event =
    Transmitted double "Comm option" "Comm option" WsfMessage
  | Attempted double "Comm option" "Comm option" WsfMessage CommResult
  | Arrived double "Comm option" "Comm option" WsfMessage CommResult
  | Discarded double "Comm option" "Comm option" WsfMessage

fun observe :: "Afsim \<Rightarrow> afsim_event \<Rightarrow> Bridge \<Rightarrow> Bridge" where
  "observe A (Transmitted time t r m) b = MessageTransmitted time t r m b"
| "observe A (Attempted time t r m result) b = snd (MessageDeliveryAttempt A time t r m result b)"
| "observe A (Arrived time t r m result) b = MessageReceived A time t r m result b"
| "observe A (Discarded time t r m) b = MessageDiscarded A time t r m b"

fun event_message :: "afsim_event \<Rightarrow> WsfMessage" where
  "event_message (Transmitted time t r m) = m"
| "event_message (Attempted time t r m result) = m"
| "event_message (Arrived time t r m result) = m"
| "event_message (Discarded time t r m) = m"

fun event_transmitter :: "afsim_event \<Rightarrow> Comm option" where
  "event_transmitter (Transmitted time t r m) = t"
| "event_transmitter (Attempted time t r m result) = t"
| "event_transmitter (Arrived time t r m result) = t"
| "event_transmitter (Discarded time t r m) = t"

text \<open>The key under which the extension remembers the message of an event.\<close>

definition concerns :: "MessageKey \<Rightarrow> afsim_event \<Rightarrow> bool" where
  "concerns key event \<longleftrightarrow>
     (case event_transmitter event of
        Some t \<Rightarrow> (comm_ptr t, msg_serial (event_message event)) = key
      | None \<Rightarrow> False)"

lemma bridge_ok_marks:
  "bridge_ok b \<Longrightarrow> map_ok gated \<Longrightarrow> map_ok dropped \<Longrightarrow>
    bridge_ok (b\<lparr>mExternallyGatedMessages := gated, mExternallyDroppedMessages := dropped\<rparr>)"
  by (simp add: bridge_ok_def)

lemma bridge_ok_gated: "bridge_ok b \<Longrightarrow> map_ok m \<Longrightarrow> bridge_ok (b\<lparr>mExternallyGatedMessages := m\<rparr>)"
  by (simp add: bridge_ok_def)

lemma bridge_ok_dropped: "bridge_ok b \<Longrightarrow> map_ok m \<Longrightarrow> bridge_ok (b\<lparr>mExternallyDroppedMessages := m\<rparr>)"
  by (simp add: bridge_ok_def)

lemma bridge_ok_times: "bridge_ok b \<Longrightarrow> bridge_ok (b\<lparr>mTransmitTimes := m\<rparr>)"
  by (simp add: bridge_ok_def)

lemma bridge_ok_marks_map:
  "bridge_ok b \<Longrightarrow> map_ok (mExternallyGatedMessages b)" "bridge_ok b \<Longrightarrow> map_ok (mExternallyDroppedMessages b)"
  by (simp_all add: bridge_ok_def)

lemmas bridge_ok_intros = bridge_ok_gated bridge_ok_dropped bridge_ok_times bridge_ok_log bridge_ok_RecordFlow
  bridge_ok_put_observation bridge_ok_settle_message map_ok_put map_ok_erase
  ob_ok_rate ob_ok_settle_message ob_ok_count [THEN iffD2] observation_ok

lemma bridge_ok_transmitted: "bridge_ok b \<Longrightarrow> message_ok m \<Longrightarrow> bridge_ok (MessageTransmitted time t r m b)"
  by (auto simp: MessageTransmitted_def Let_def split: option.split intro!: bridge_ok_intros)

lemma bridge_ok_attempt:
  "bridge_ok b \<Longrightarrow> message_ok m \<Longrightarrow> bridge_ok (snd (MessageDeliveryAttempt A time t r m result b))"
  by (auto simp: MessageDeliveryAttempt_def Let_def split: option.split
      intro!: bridge_ok_intros intro: bridge_ok_marks_map)

lemma bridge_ok_received: "bridge_ok b \<Longrightarrow> message_ok m \<Longrightarrow> bridge_ok (MessageReceived A time t r m result b)"
  by (auto simp: MessageReceived_def Let_def case_prod_beta split: option.split
      intro!: bridge_ok_intros intro: bridge_ok_marks_map)

lemma bridge_ok_discarded: "bridge_ok b \<Longrightarrow> message_ok m \<Longrightarrow> bridge_ok (MessageDiscarded A time t r m b)"
  by (auto simp: MessageDiscarded_def Let_def case_prod_beta split: option.split
      intro!: bridge_ok_intros intro: bridge_ok_marks_map)

lemma bridge_ok_observe [invariant_intros]:
  "bridge_ok b \<Longrightarrow> message_ok (event_message event) \<Longrightarrow> bridge_ok (observe A event b)"
  by (cases event)
    (simp_all add: bridge_ok_transmitted bridge_ok_attempt bridge_ok_received bridge_ok_discarded)

section \<open>What the gate did is not observed of AFSIM's links\<close>

lemma observation_put:
  "map_ok (mLinkObservations b) \<Longrightarrow>
    observation (put_observation k ob b) l = (if l = k then ob else observation b l)"
  by (simp add: observation_def map_find_put)

lemma observation_frame [simp]:
  "observation (AppendLog l b) k = observation b k"
  "observation (RecordFlow time t r m b) k = observation b k"
  "observation (b\<lparr>mExternallyGatedMessages := g\<rparr>) k = observation b k"
  "observation (b\<lparr>mExternallyDroppedMessages := g\<rparr>) k = observation b k"
  "observation (b\<lparr>mTransmitTimes := u\<rparr>) k = observation b k"
  by (simp_all add: observation_def)

definition marks :: "Bridge \<Rightarrow> MessageKey \<Rightarrow> bool \<times> bool" where
  "marks b key = (map_has (mExternallyGatedMessages b) key, map_has (mExternallyDroppedMessages b) key)"

text \<open>Events of other messages leave the marks of a message alone.\<close>

lemma marks_observe:
  assumes "bridge_ok b" and "\<not> concerns key event"
  shows "marks (observe A event b) key = marks b key"
  using assms bridge_ok_marks_map [OF assms(1)]
  by (cases event)
    (auto simp: marks_def concerns_def MessageTransmitted_def MessageDeliveryAttempt_def MessageReceived_def
      MessageDiscarded_def Let_def case_prod_beta map_has_put map_has_erase split: option.split)

lemma marks_fold:
  assumes "bridge_ok b" and "list_all (\<lambda>e. message_ok (event_message e) \<and> \<not> concerns key e) events"
  shows "bridge_ok (fold (observe A) events b) \<and> marks (fold (observe A) events b) key = marks b key"
  using assms by (induction events arbitrary: b) (simp_all add: bridge_ok_observe marks_observe)

definition gate_passes :: "Bridge \<Rightarrow> Comm \<Rightarrow> Comm \<Rightarrow> WsfMessage \<Rightarrow> bool" where
  "gate_passes b t r m =
     (case (comm_platform t, comm_platform r) of
        (Some source, Some target) \<Rightarrow>
          dec_disposition (DecideMessage (mController b) (show_nat source) (show_nat target)
            (ucast (msg_serial m))) = Deliver
      | _ \<Rightarrow> False)"

lemma attempt_marks:
  assumes "bridge_ok b"
  shows "marks (snd (MessageDeliveryAttempt A time (Some t) (Some r) m result b)) (comm_ptr t, msg_serial m) =
    (True, \<not> gate_passes b t r m)"
  using bridge_ok_marks_map [OF assms]
  by (auto simp: marks_def MessageDeliveryAttempt_def gate_passes_def Let_def map_has_put map_has_erase
      split: option.split)

lemma attempt_status:
  "cr_failedStatus (fst (MessageDeliveryAttempt A time (Some t) (Some r) m result b)) =
    (if gate_passes b t r m then cr_failedStatus result else cr_failedStatus result OR a_signalLevel A)"
  by (auto simp: MessageDeliveryAttempt_def gate_passes_def Let_def reject_result_def accept_result_def
      split: option.split)

lemma discarded_observation:
  assumes "bridge_ok b" and "marks b (comm_ptr t, msg_serial m) = (True, dropped)"
  shows "observation (MessageDiscarded A time (Some t) (Some r) m b) (comm_ptr t, comm_ptr r) =
    (if dropped then observation b (comm_ptr t, comm_ptr r)
     else count_completed True (observation b (comm_ptr t, comm_ptr r)))"
  using assms by (auto simp: MessageDiscarded_def marks_def Let_def case_prod_beta observation_put bridge_ok_def
      settle_message_def)

lemma received_observation:
  assumes "bridge_ok b" and "marks b (comm_ptr t, msg_serial m) = (True, dropped)"
  shows "observation (MessageReceived A time (Some t) (Some r) m result b) (comm_ptr t, comm_ptr r) =
    UpdateObservedDataRate A
      (count_completed (cr_failedStatus result \<noteq> 0) (observation b (comm_ptr t, comm_ptr r))) result"
  using assms by (auto simp: MessageReceived_def marks_def Let_def case_prod_beta observation_put bridge_ok_def
      settle_message_def)

text \<open>
  C5. A message that went through the gate, when no other event before its end concerns the same
  transmitter and serial number (the other receivers of a message do, and then its marks may be
  lost). The gate adds its failure bit to the status of the attempt exactly when it does not let the
  message pass, and changes no other bit. The end of the message adds no delay to what is
  observed of the link, so the delay the gate imposed is not fed back. When the gate dropped the
  message, its discarding adds nothing at all; when the gate let it pass, discarding counts one lost
  message, and receiving counts one that arrived, or one that was lost when it arrives failed,
  and takes over the data rate AFSIM reports.
\<close>

theorem gated_messages_not_observed:
  assumes "bridge_ok b" and "message_ok m"
    and "list_all (\<lambda>e. message_ok (event_message e) \<and> \<not> concerns (comm_ptr t, msg_serial m) e) others"
  shows "let (result', b1) = MessageDeliveryAttempt A time (Some t) (Some r) m result b;
      b2 = fold (observe A) others b1; link = (comm_ptr t, comm_ptr r) in
    cr_failedStatus result' =
      (if gate_passes b t r m then cr_failedStatus result else cr_failedStatus result OR a_signalLevel A) \<and>
    observation (MessageDiscarded A time' (Some t) (Some r) m b2) link =
      (if gate_passes b t r m then count_completed True (observation b2 link) else observation b2 link) \<and>
    observation (MessageReceived A time' (Some t) (Some r) m arrival b2) link =
      UpdateObservedDataRate A
        (count_completed (cr_failedStatus arrival \<noteq> 0) (observation b2 link)) arrival"
proof -
  define b1 where "b1 = snd (MessageDeliveryAttempt A time (Some t) (Some r) m result b)"
  have "bridge_ok b1" using bridge_ok_attempt [OF assms(1,2)] by (simp add: b1_def)
  from marks_fold [OF this assms(3)] attempt_marks [OF assms(1)]
  have ok: "bridge_ok (fold (observe A) others b1)"
    and marks: "marks (fold (observe A) others b1) (comm_ptr t, msg_serial m) = (True, \<not> gate_passes b t r m)"
    by (simp_all add: b1_def)
  from discarded_observation [OF ok marks] received_observation [OF ok marks]
  show ?thesis by (simp add: Let_def case_prod_beta attempt_status flip: b1_def)
qed

section \<open>A sample bridge\<close>

definition sample_afsim :: Afsim where
  "sample_afsim = \<lparr>a_signalLevel = 1, a_sin = (\<lambda>_. Fin 0), a_cos = (\<lambda>_. Fin 1), a_sqrt = (\<lambda>x. x),
     a_undefined = (\<lambda>_. 0)\<rparr>"

definition sample_bridge :: Bridge where
  "sample_bridge = projr (new_bridge (\<lambda>_. None) 7)"

lemma new_client_valid: "valid_config config \<Longrightarrow> is_ok (new_client (client_config config))"
  by (simp add: new_client_def client_config_def valid_config_def)

lemma new_bridge_ok:
  "\<exists>b. new_bridge env clock = Inr b \<and> bridge_ok b \<and> mConfig b = runtime_config env \<and>
    new_controller (client_config (runtime_config env)) =
      Inr ((mController b)\<lparr>mEffectErrorHandler := False\<rparr>) \<and> mEffectErrorHandler (mController b)"
proof -
  obtain client where client: "new_client (client_config (runtime_config env)) = Inr client"
    using new_client_valid [OF runtime_config_is_valid] by (auto simp: is_ok_iff)
  then show ?thesis
    using runtime_config_is_valid [of env]
    by (simp add: new_bridge_def new_controller_def SetEffectErrorHandler_def bridge_ok_def Let_def)
qed

lemma sample_bridge_ok: "bridge_ok sample_bridge" "new_bridge (\<lambda>_. None) 7 = Inr sample_bridge"
  using new_bridge_ok [of "\<lambda>_. None" 7] by (auto simp: sample_bridge_def)

definition radio :: "nat \<Rightarrow> Comm" where
  "radio n = \<lparr>comm_ptr = n, comm_name = ''radio'', comm_platform = Some n\<rparr>"

definition sample_message :: WsfMessage where
  "sample_message = \<lparr>msg_serial = 5, msg_type = ''TRACK'', msg_subType = [], msg_sizeBits = 800, msg_sizeBytes = 100\<rparr>"

definition sample_result :: CommResult where
  "sample_result = \<lparr>cr_checkedStatus = 0, cr_failedStatus = 0, cr_dataRate = Fin 0, cr_disconnectReason = None\<rparr>"

theorem gated_messages_not_observed_witness:
  "let b1 = snd (MessageDeliveryAttempt sample_afsim (Fin 1) (Some (radio 1)) (Some (radio 2)) sample_message
      sample_result sample_bridge);
     b2 = MessageTransmitted (Fin 2) (Some (radio 3)) None sample_message b1 in
   observation (MessageDiscarded sample_afsim (Fin 3) (Some (radio 1)) (Some (radio 2)) sample_message b2) (1, 2) =
     observation b2 (1, 2)"
proof -
  have m: "message_ok sample_message" by (simp add: message_ok_def sample_message_def)
  have others: "list_all (\<lambda>e. message_ok (event_message e) \<and>
      \<not> concerns (comm_ptr (radio 1), msg_serial sample_message) e)
    [Transmitted (Fin 2) (Some (radio 3)) None sample_message]"
    using m by (simp add: concerns_def radio_def)
  have none: "mMessageGate (mController sample_bridge) = new_message_gate"
  proof -
    obtain c where new: "new_controller (client_config (runtime_config (\<lambda>_. None))) = Inr c"
      and c: "c = (mController sample_bridge)\<lparr>mEffectErrorHandler := False\<rparr>"
      using new_bridge_ok [of "\<lambda>_. None" 7] by (auto simp: sample_bridge_def)
    from new have "mMessageGate c = new_message_gate" by (auto simp: new_controller_def rbind_eq_Inr)
    then show ?thesis by (simp add: c)
  qed
  have "\<not> gate_passes sample_bridge (radio 1) (radio 2) sample_message"
    by (simp add: gate_passes_def radio_def DecideMessage_def none Decide_def new_message_gate_def Let_def)
  then show ?thesis
    using gated_messages_not_observed [OF sample_bridge_ok(1) m others, of sample_afsim "Fin 1" "radio 2"
        sample_result "Fin 3"]
    by (simp add: Let_def case_prod_beta radio_def)
qed

section \<open>Effects\<close>

lemma fold_append_line: "fold (\<lambda>d l. l @ [f d]) ds l = l @ map f ds"
  by (induction ds arbitrary: l) simp_all

text \<open>
  Applying the waiting effects never fails: each of them is logged once as ignored, in the
  order of its entity, subsystem and peer, all are counted, none is reported as an error, and
  nothing waits afterwards; the rest of the extension's state is as before.
\<close>

lemma effects_all_logged:
  "apply_effects b =
    (let waiting = mPendingEffects (mController b) in
     (length waiting, b\<lparr>mController := (mController b)\<lparr>mPendingEffects := []\<rparr>,
        log_lines := log_lines b @ map (\<lambda>(k, d). ignored_line d) waiting\<rparr>))"
  by (simp add: apply_effects_def logging.ApplyPendingEffects_all fold_append_line case_prod_beta Let_def o_def)

end
