(* ===== verification/ExtensionCollect.thy ===== *)
theory ExtensionCollect
  imports ExtensionFacts
begin

text \<open>
  What the collection of the simulation's state guarantees: every entity and flow it yields has
  parameters in range, flows are active only over links that are up, and the identifiers are
  those of the platforms and of the observed message streams.
\<close>

section \<open>What collecting leaves alone\<close>

definition same_rest :: "Bridge \<Rightarrow> Bridge \<Rightarrow> bool" where
  "same_rest b b' \<longleftrightarrow> mConfig b' = mConfig b \<and> mController b' = mController b \<and>
     mObservedFlows b' = mObservedFlows b \<and> mTick b' = mTick b \<and> mRunId b' = mRunId b \<and>
     mStopping b' = mStopping b \<and> mCallbacks b' = mCallbacks b"

lemma same_rest_refl: "same_rest b b"
  by (simp add: same_rest_def)

lemma same_rest_trans: "same_rest a b \<Longrightarrow> same_rest b c \<Longrightarrow> same_rest a c"
  by (simp add: same_rest_def)

section \<open>Devices\<close>

definition valid_device :: "string \<Rightarrow> DeviceConfig \<Rightarrow> bool" where
  "valid_device entityId d \<longleftrightarrow>
     1 \<le> dev_dataRateBps d \<and> d_le (Fin 0) (dev_delayMs d) \<and>
     isfinite (dev_lossRate d) \<and> 0 \<le> dval (dev_lossRate d) \<and> dval (dev_lossRate d) \<le> 1 \<and>
     dev_linkState d \<in> {''UP'', ''DOWN''} \<and> dev_kind d \<in> {''wired'', ''wireless''} \<and>
     dev_peerEntityId d \<noteq> entityId"

lemma settle_ok:
  assumes "ob_ok ob"
  shows "ob_ok (settle ob)"
proof -
  define mid where "mid = (if 0 < ob_completed ob
    then ob\<lparr>ob_lastLossRate := d_min (Fin 1)
             (d_div (d_of_nat (unat (ob_failures ob))) (d_of_nat (unat (ob_completed ob)))),
           ob_hasLoss := True, ob_completed := 0, ob_failures := 0\<rparr> else ob)"
  have word: "unat n < 2 ^ 64" for n :: u64 using unsigned_less [of n, where ?'a = nat] by simp
  have pos: "\<exists>r. d_of_nat (unat n) = Fin r \<and> 0 < r" if "0 < n" for n :: u64
  proof -
    have "0 < unat n" using that by (simp add: word_less_nat_alt)
    then obtain r where "d_of_nat (unat n) = Fin r" "1 \<le> r" using d_of_nat_word_pos [OF _ word] by blast
    then show ?thesis by auto
  qed
  have "ob_ok mid"
  proof (cases "0 < ob_completed ob")
    case True
    obtain r where "d_of_nat (unat (ob_completed ob)) = Fin r" "0 < r" using pos [OF True] by blast
    moreover have "d_le (Fin 0) (d_of_nat (unat (ob_failures ob)))"
      using d_of_nat_word [OF word] by (simp add: d_le_0_iff)
    ultimately have "d_le (Fin 0) (d_div (d_of_nat (unat (ob_failures ob))) (d_of_nat (unat (ob_completed ob))))"
      by (simp add: d_le_0_div)
    from loss_in_unit [OF this] show ?thesis using assms True by (simp add: mid_def ob_ok_def)
  qed (use assms in \<open>simp add: mid_def\<close>)
  show ?thesis
  proof (cases "0 < ob_delaySamples mid")
    case True
    obtain r where "d_of_nat (unat (ob_delaySamples mid)) = Fin r" "0 < r" using pos [OF True] by blast
    then show ?thesis using \<open>ob_ok mid\<close> True
      by (simp add: settle_def flip: mid_def) (simp add: ob_ok_def d_le_0_div d_le_finite)
  next
    case False
    then show ?thesis using \<open>ob_ok mid\<close> by (simp add: settle_def flip: mid_def)
  qed
qed

lemma configured_delay_ok:
  "valid_config config \<Longrightarrow> d_le (Fin 0) (ConfiguredDelayMs A w config t r)"
  by (auto simp: ConfiguredDelayMs_def valid_config_def Let_def)

lemma collect_device_result:
  assumes "bridge_ok b"
  shows "\<exists>device b'. collect_device A w d r comm rate (peerId, endpoint) (devices, ups, b) =
      (devices @ [device],
       if dev_linkState device = ''UP'' then map_put (pr_entityId r, peerId) () ups else ups, b') \<and>
    bridge_ok b' \<and> same_rest b b' \<and> dev_peerEntityId device = peerId \<and>
    (peerId \<noteq> pr_entityId r \<longrightarrow> valid_device (pr_entityId r) device) \<and>
    (dev_linkState device = ''UP'' \<longrightarrow> pr_alive r \<and> map_find (dir_entityAlive d) peerId = Some True)"
proof (cases "pe_comm endpoint")
  case None
  then show ?thesis using assms configured_delay_ok [of "mConfig b" A w comm None]
    by (auto simp: collect_device_def Let_def valid_device_def same_rest_refl LinkKind_def ConfiguredLossRate_def
        bridge_ok_def valid_config_def split: option.split medium.split)
next
  case (Some peer)
  define ob where "ob = settle (observation b (comm_ptr comm, comm_ptr peer))"
  have ob: "ob_ok ob" using assms by (simp add: ob_def settle_ok observation_ok)
  have b': "bridge_ok (put_observation (comm_ptr comm, comm_ptr peer) ob b)"
    using assms ob by (rule bridge_ok_put_observation)
  have rest: "same_rest b (put_observation (comm_ptr comm, comm_ptr peer) ob b)"
    by (simp add: same_rest_def put_observation_def)
  show ?thesis using ob b' rest assms configured_delay_ok [of "mConfig b" A w comm "Some peer"]
    by (auto simp: collect_device_def Let_def valid_device_def LinkKind_def ConfiguredLossRate_def Some
        bridge_ok_def valid_config_def ob_ok_def split: option.split medium.split simp flip: ob_def)
qed

section \<open>Entities\<close>

definition up_device :: "string \<Rightarrow> DeviceConfig list \<Rightarrow> bool" where
  "up_device peerId devices \<longleftrightarrow> (\<exists>d \<in> set devices. dev_peerEntityId d = peerId \<and> dev_linkState d = ''UP'')"

text \<open>The invariant of the loops over the devices and peers of one platform.\<close>

definition device_loop ::
  "Directory \<Rightarrow> PlatformRecord \<Rightarrow> up_links \<Rightarrow> Bridge \<Rightarrow> DeviceConfig list \<times> up_links \<times> Bridge \<Rightarrow> bool" where
  "device_loop d r ups0 b0 = (\<lambda>(devices, ups, b).
     bridge_ok b \<and> same_rest b0 b \<and> map_ok ups \<and> list_all (valid_device (pr_entityId r)) devices \<and>
     (\<forall>a p. map_has ups (a, p) \<longrightarrow> map_has ups0 (a, p) \<or>
       a = pr_entityId r \<and> pr_alive r \<and> map_find (dir_entityAlive d) p = Some True \<and> up_device p devices))"

lemma up_device_append: "up_device p (devices @ [d]) \<longleftrightarrow>
    up_device p devices \<or> dev_peerEntityId d = p \<and> dev_linkState d = ''UP''"
  by (auto simp: up_device_def)

lemma device_loop_step:
  assumes "device_loop d r ups0 b0 s" and "fst peer \<noteq> pr_entityId r"
  shows "device_loop d r ups0 b0 (collect_device A w d r comm rate peer s)"
proof -
  obtain devices ups b where s: "s = (devices, ups, b)" by (cases s)
  obtain k e where peer: "peer = (k, e)" by (cases peer)
  have "bridge_ok b" using assms(1) by (simp add: s device_loop_def)
  from collect_device_result [OF this, of A w d r comm rate k e devices ups]
  obtain device b' where step: "collect_device A w d r comm rate peer s =
      (devices @ [device], if dev_linkState device = ''UP'' then map_put (pr_entityId r, k) () ups else ups, b')"
    and b': "bridge_ok b'" "same_rest b b'" and peer_id: "dev_peerEntityId device = k"
    and "valid_device (pr_entityId r) device"
    and "dev_linkState device = ''UP'' \<longrightarrow> pr_alive r \<and> map_find (dir_entityAlive d) k = Some True"
    using assms(2) by (auto simp: s peer)
  then show ?thesis
    using assms(1) same_rest_trans [OF _ b'(2), of b0] unfolding step
    by (auto simp: s device_loop_def up_device_append map_has_put map_ok_put)
qed

definition other_peers :: "PlatformRecord \<Rightarrow> peers \<Rightarrow> bool" where
  "other_peers r ps \<longleftrightarrow> list_all (\<lambda>(k, e). k \<noteq> pr_entityId r) ps"

lemma other_peers_of: "other_peers r (peers_of d r comm)"
proof -
  have put: "other_peers r ps \<Longrightarrow> k \<noteq> pr_entityId r \<Longrightarrow> other_peers r (add_peer k c ps)" for k c ps
    by (simp add: other_peers_def add_peer_def Let_def list_all_put)
  have links: "other_peers r (fold (link_peer d r) (cv_linkPairs comm) [])"
    by (rule fold_invariant [where Q = "\<lambda>_. True"])
      (auto simp: link_peer_def put split: option.split, simp add: other_peers_def)
  have "other_peers r (fold (network_peer r) found ps)" if "other_peers r ps" for found ps
    using that by (rule fold_invariant [where Q = "\<lambda>_. True", OF TrueI]) (simp add: network_peer_def put)
  with links show ?thesis by (simp add: peers_of_def Let_def split: option.split)
qed

lemma ConfiguredDataRate_result:
  assumes "bridge_ok b"
  shows "bridge_ok (snd (ConfiguredDataRate A comm b)) \<and> same_rest b (snd (ConfiguredDataRate A comm b))"
proof -
  have "(1 :: u64) \<le> max 1 n" for n by simp
  then show ?thesis using assms
    by (auto simp: ConfiguredDataRate_def Let_def bridge_ok_def same_rest_def split: option.split
        intro!: list_all_put)
qed

lemma device_loop_comm:
  assumes "device_loop d r ups0 b0 s"
  shows "device_loop d r ups0 b0 (collect_comm A w d r comm s)"
proof -
  obtain devices ups b where s: "s = (devices, ups, b)" by (cases s)
  obtain rate b' where rate: "ConfiguredDataRate A comm b = (rate, b')" by (cases "ConfiguredDataRate A comm b")
  have "bridge_ok b'" "same_rest b b'"
    using ConfiguredDataRate_result [of b A comm] assms by (simp_all add: rate s device_loop_def)
  then have start: "device_loop d r ups0 b0 (devices, ups, b')"
    using assms same_rest_trans [of b0 b b'] by (simp add: s device_loop_def)
  have "device_loop d r ups0 b0 (fold (collect_device A w d r comm n) (peers_of d r comm) (devices, ups, b'))" for n
    using start
    by (rule fold_invariant [where Q = "\<lambda>p. fst p \<noteq> pr_entityId r", rotated])
      (use other_peers_of [of r d comm] in \<open>auto simp: other_peers_def list_all_iff intro: device_loop_step\<close>)
  then show ?thesis by (simp add: collect_comm_def s rate)
qed

definition valid_entity :: "EntityState \<Rightarrow> bool" where
  "valid_entity e \<longleftrightarrow> list_all (valid_device (ent_entityId e)) (ent_devices e) \<and>
     (ent_headingDeg e = NaN \<or> in_circle (ent_headingDeg e))"

definition describes :: "PlatformRecord \<Rightarrow> EntityState \<Rightarrow> bool" where
  "describes r e \<longleftrightarrow> ent_entityId e = pr_entityId r \<and> ent_alive e = pr_alive r \<and>
     ent_businessNodeId e = pv_name (pr_platform r) \<and> ent_velocity e = velocity_of (pr_platform r)"

lemma locate_result:
  assumes "bridge_ok b" and "locate A p b = (result, b')"
  shows "bridge_ok b' \<and> same_rest b b'"
proof -
  have "b' = b \<or> (\<exists>f. b' = b\<lparr>mEnuFrame := f\<rparr>)"
    using assms(2) by (auto simp: locate_def Let_def split: sum.splits)
  then show ?thesis using assms(1) by (auto simp: bridge_ok_def same_rest_def)
qed

lemma collect_entity_result:
  assumes "bridge_ok b" and "map_ok ups" and "collect_entity A w d r (ups, b) = Some (result, b')"
  shows "bridge_ok b' \<and> same_rest b b' \<and>
    (\<forall>e ups'. result = Inr (e, ups') \<longrightarrow> valid_entity e \<and> describes r e \<and> map_ok ups' \<and>
      (\<forall>a p. map_has ups' (a, p) \<longrightarrow> map_has ups (a, p) \<or>
        a = ent_entityId e \<and> ent_alive e \<and> map_find (dir_entityAlive d) p = Some True \<and>
        up_device p (ent_devices e)))"
proof -
  obtain located b1 where located: "locate A (pr_platform r) b = (located, b1)"
    by (cases "locate A (pr_platform r) b")
  have b1: "bridge_ok b1" "same_rest b b1" using locate_result [OF assms(1) located] by simp_all
  show ?thesis
  proof (cases located)
    case (Inl e)
    then show ?thesis using assms(3) b1 by (auto simp: collect_entity_def located)
  next
    case (Inr position)
    obtain heading where heading: "Degrees (pv_heading (pr_platform r)) = Some heading"
      using assms(3) by (auto simp: collect_entity_def located Inr split: option.splits)
    obtain devices ups' b2 where loop: "fold (collect_comm A w d r) (comms_of r) ([], ups, b1) = (devices, ups', b2)"
      by (cases "fold (collect_comm A w d r) (comms_of r) ([], ups, b1)")
    have "device_loop d r ups b ([], ups, b1)" using b1 assms(2) by (simp add: device_loop_def)
    then have "device_loop d r ups b (devices, ups', b2)"
      unfolding loop [symmetric]
      by (rule fold_invariant [where Q = "\<lambda>_. True", OF TrueI]) (rule device_loop_comm)
    then have ended: "bridge_ok b2" "same_rest b b2" "map_ok ups'" "list_all (valid_device (pr_entityId r)) devices"
      and links: "\<And>a p. map_has ups' (a, p) \<Longrightarrow> map_has ups (a, p) \<or>
        a = pr_entityId r \<and> pr_alive r \<and> map_find (dir_entityAlive d) p = Some True \<and> up_device p devices"
      by (simp_all add: device_loop_def)
    obtain e where e: "result = Inr (e, ups')" "b' = b2" "ent_entityId e = pr_entityId r"
      "ent_alive e = pr_alive r" "ent_devices e = devices" "ent_headingDeg e = heading" "describes r e"
      using assms(3) by (auto simp: collect_entity_def located Inr heading loop describes_def)
    then show ?thesis
      using ended Degrees_in_range [OF heading] links by (simp add: valid_entity_def)
  qed
qed

lemma collect_entities_result:
  assumes "bridge_ok b" and "map_ok ups" and "collect_entities A w d rs (ups, b) = Some (result, b')"
  shows "bridge_ok b' \<and> same_rest b b' \<and>
    (\<forall>es ups'. result = Inr (es, ups') \<longrightarrow> list_all valid_entity es \<and> list_all2 describes rs es \<and>
      (\<forall>a p. map_has ups' (a, p) \<longrightarrow> map_has ups (a, p) \<or>
        map_find (dir_entityAlive d) p = Some True \<and>
        (\<exists>e \<in> set es. ent_entityId e = a \<and> ent_alive e \<and> up_device p (ent_devices e))))"
  using assms
proof (induction rs arbitrary: ups b result b')
  case Nil
  then show ?case by (auto simp: same_rest_refl)
next
  case (Cons r rs)
  obtain r1 b1 where one: "collect_entity A w d r (ups, b) = Some (r1, b1)"
    using Cons.prems(3) by (auto split: option.splits)
  note first = collect_entity_result [OF Cons.prems(1,2) one]
  show ?case
  proof (cases r1)
    case (Inl x)
    then show ?thesis using Cons.prems(3) first by (auto simp: one)
  next
    case (Inr p)
    obtain e ups1 where p: "p = (e, ups1)" by (cases p)
    obtain r2 b2 where rest: "collect_entities A w d rs (ups1, b1) = Some (r2, b2)"
      using Cons.prems(3) by (auto simp: one Inr p split: option.splits)
    have f: "bridge_ok b1" "map_ok ups1" "same_rest b b1" "valid_entity e" "describes r e"
      "\<forall>a p. map_has ups1 (a, p) \<longrightarrow> map_has ups (a, p) \<or> a = ent_entityId e \<and> ent_alive e \<and>
        map_find (dir_entityAlive d) p = Some True \<and> up_device p (ent_devices e)"
      using first by (auto simp: Inr p)
    note g = Cons.IH [OF f(1,2) rest]
    show ?thesis
    proof (cases r2)
      case Inl': (Inl x)
      then show ?thesis using Cons.prems(3) g same_rest_trans [OF f(3)] by (auto simp: one Inr p rest)
    next
      case Inr': (Inr q)
      obtain es ups2 where q: "q = (es, ups2)" by (cases q)
      have result: "result = Inr (e # es, ups2)" "b' = b2"
        using Cons.prems(3) by (simp_all add: one Inr p rest Inr' q)
      have "bridge_ok b2" "same_rest b b2" "list_all valid_entity es" "list_all2 describes rs es"
        and ups2: "\<forall>a p. map_has ups2 (a, p) \<longrightarrow> map_has ups1 (a, p) \<or>
          map_find (dir_entityAlive d) p = Some True \<and>
          (\<exists>e \<in> set es. ent_entityId e = a \<and> ent_alive e \<and> up_device p (ent_devices e))"
        using g same_rest_trans [OF f(3)] by (auto simp: Inr' q)
      then show ?thesis using f unfolding result by (auto dest: f(6) [rule_format])
    qed
  qed
qed

section \<open>The collected state\<close>

lemma register_comm_alive [simp]: "dir_entityAlive (register_comm r c d) = dir_entityAlive d"
  by (simp add: register_comm_def Let_def)

lemma register_comms_alive [simp]: "dir_entityAlive (fold (register_comm r) cs d) = dir_entityAlive d"
  by (induction cs arbitrary: d) simp_all

lemma directory_alive:
  assumes "map_find (dir_entityAlive (directory rs)) k = Some a"
  shows "\<exists>r \<in> set rs. pr_entityId r = k \<and> pr_alive r = a"
proof -
  have comms: "dir_entityAlive (fold (\<lambda>r. fold (register_comm r) (comms_of r)) rs' d) = dir_entityAlive d" for rs' d
    by (induction rs' arbitrary: d) simp_all
  have platforms: "map_ok (dir_entityAlive (fold register_platform rs' d)) \<and>
      (\<forall>k a. map_find (dir_entityAlive (fold register_platform rs' d)) k = Some a \<longrightarrow>
        map_find (dir_entityAlive d) k = Some a \<or> (\<exists>r \<in> set rs'. pr_entityId r = k \<and> pr_alive r = a))"
    if "map_ok (dir_entityAlive d)" for rs' d
    using that
  proof (induction rs' rule: rev_induct)
    case Nil
    then show ?case by simp
  next
    case (snoc r rs')
    then show ?case by (auto simp: register_platform_def map_find_put map_ok_put split: if_splits)
  qed
  have "map_find (dir_entityAlive (fold register_platform rs \<lparr>dir_nameToEntity = [], dir_entityAlive = [],
      dir_commByAddress = [], dir_networkPeers = []\<rparr>)) k = Some a"
    using assms by (simp add: directory_def comms)
  then show ?thesis
    using platforms [of "\<lparr>dir_nameToEntity = [], dir_entityAlive = [], dir_commByAddress = [], dir_networkPeers = []\<rparr>" rs]
    by auto
qed

definition valid_flow :: "EntityState list \<Rightarrow> FlowConfig \<Rightarrow> bool" where
  "valid_flow es f \<longleftrightarrow> 64 \<le> flow_packetSizeBytes f \<and> 1 \<le> flow_intervalMs f \<and> 100 \<le> flow_durationMs f \<and>
     flow_sourceEntityId f \<noteq> flow_targetEntityId f \<and>
     (flow_active f \<longrightarrow>
       (\<exists>e \<in> set es. ent_entityId e = flow_sourceEntityId f \<and> ent_alive e \<and>
          up_device (flow_targetEntityId f) (ent_devices e)) \<and>
       (\<exists>e \<in> set es. ent_entityId e = flow_targetEntityId f \<and> ent_alive e))"

lemma forget_old_times_result: "bridge_ok (forget_old_times time b) = bridge_ok b" "same_rest b (forget_old_times time b)"
  by (simp_all add: forget_old_times_def Let_def bridge_ok_def same_rest_def)

lemma CollectState_result:
  assumes "bridge_ok b" and "CollectState A w time b = Some (result, b')"
  shows "bridge_ok b' \<and> same_rest b b' \<and>
    (\<forall>es fs. result = Inr (es, fs) \<longrightarrow> list_all valid_entity es \<and>
      list_all2 describes (platform_records w) es \<and> list_all (valid_flow es) fs \<and>
      map flow_flowId fs = map (of_flowId \<circ> snd) (mObservedFlows b))"
proof -
  let ?d = "directory (platform_records w)"
  obtain r b1 where entities: "collect_entities A w ?d (platform_records w) ([], b) = Some (r, b1)"
    using assms(2) by (auto simp: CollectState_def Let_def split: option.splits)
  note all = collect_entities_result [OF assms(1) map_ok_empty entities]
  show ?thesis
  proof (cases r)
    case (Inl e)
    then show ?thesis using assms(2) all by (auto simp: CollectState_def Let_def entities)
  next
    case (Inr p)
    obtain es ups where p: "p = (es, ups)" by (cases p)
    have b1: "bridge_ok b1" "same_rest b b1" and es: "list_all valid_entity es"
      "list_all2 describes (platform_records w) es"
      and ups: "\<And>a p. map_has ups (a, p) \<Longrightarrow> \<exists>e \<in> set es. ent_entityId e = a \<and> ent_alive e \<and> up_device p (ent_devices e)"
      using all by (auto simp: Inr p map_has_def)
    have alive: "\<exists>e \<in> set es. ent_entityId e = k \<and> ent_alive e" if up: "map_find (dir_entityAlive ?d) k = Some True" for k
    proof -
      obtain x where x: "x \<in> set (platform_records w)" "pr_entityId x = k" "pr_alive x"
        using directory_alive [of "platform_records w" k True] up by auto
      then obtain e where "e \<in> set es" "describes x e"
        using es(2) by (metis in_set_conv_nth list_all2_conv_all_nth)
      with x show ?thesis by (auto simp: describes_def)
    qed
    have result: "result = Inr (es, map (\<lambda>entry. collect_flow ?d ups (snd entry)) (mObservedFlows b))"
      "b' = forget_old_times time b1"
      using assms(2) b1(2) by (simp_all add: CollectState_def Let_def entities Inr p same_rest_def)
    have "valid_flow es (collect_flow ?d ups (snd entry))" if "entry \<in> set (mObservedFlows b)" for entry
    proof -
      have "flow_ok entry" using that assms(1) by (simp add: bridge_ok_def list_all_iff)
      then show ?thesis
        using ups alive by (cases entry) (auto simp: flow_ok_def collect_flow_def valid_flow_def)
    qed
    then show ?thesis
      using es b1 unfolding result
      by (auto simp: forget_old_times_result list_all_iff collect_flow_def
          intro: same_rest_trans [OF _ forget_old_times_result(2)])
  qed
qed

section \<open>Collecting succeeds\<close>

definition well_placed :: "PlatformView \<Rightarrow> bool" where
  "well_placed p \<longleftrightarrow>
     in_range (latitudeDeg (location_of p)) 90 \<and> in_range (longitudeDeg (location_of p)) 180 \<and>
     isfinite (altitudeM (location_of p)) \<and>
     (let v = d_div (d_mul (pv_heading p) (Fin 180)) (fl Pi_literal) in isfinite v \<and> \<bar>dval v\<bar> \<le> 2 ^ 52)"

lemma well_placed_heading: "well_placed p \<Longrightarrow> \<exists>d. Degrees (pv_heading p) = Some d"
  using degrees_end unfolding well_placed_def Degrees_def Let_def by blast

lemma locate_succeeds:
  assumes "well_placed p"
  shows "\<exists>position b'. locate A p b = (Inr position, b')"
proof -
  have ok: "is_ok (ToEcef (geo_arith A) (location_of p))"
    using assms by (simp add: geo_arith_def ToEcef_ok well_placed_def)
  then have "is_ok (new_frame (geo_arith A) (location_of p))" by (simp add: geo_arith_def new_frame_ok)
  then obtain f where f: "new_frame (geo_arith A) (location_of p) = Inr f" by (auto simp: is_ok_iff)
  have "\<exists>v. ToEnu (geo_arith A) g (location_of p) = Inr v" for g
    using ok ToEnu_ok by (simp add: geo_arith_def is_ok_iff)
  then have "\<exists>v. rbind (ToEnu (geo_arith A) g (location_of p)) (\<lambda>v. Inr (to_position v)) = Inr v" for g
    by (metis rbind_simps(2))
  then show ?thesis using f by (auto simp: locate_def Let_def split: option.split)
qed

lemma collect_entities_succeeds:
  assumes "list_all (\<lambda>r. well_placed (pr_platform r)) rs"
  shows "\<exists>es ups' b'. collect_entities A w d rs (ups, b) = Some (Inr (es, ups'), b')"
  using assms
proof (induction rs arbitrary: ups b)
  case Nil
  then show ?case by simp
next
  case (Cons r rs)
  obtain position b1 where located: "locate A (pr_platform r) b = (Inr position, b1)"
    using locate_succeeds [of "pr_platform r" A b] Cons.prems by auto
  obtain heading where heading: "Degrees (pv_heading (pr_platform r)) = Some heading"
    using well_placed_heading Cons.prems by auto
  obtain devices ups1 b2 where "fold (collect_comm A w d r) (comms_of r) ([], ups, b1) = (devices, ups1, b2)"
    by (cases "fold (collect_comm A w d r) (comms_of r) ([], ups, b1)")
  then obtain e where e: "collect_entity A w d r (ups, b) = Some (Inr (e, ups1), b2)"
    by (simp add: collect_entity_def located heading)
  obtain es ups2 b3 where "collect_entities A w d rs (ups1, b2) = Some (Inr (es, ups2), b3)"
    using Cons by fastforce
  then show ?case by (simp add: e)
qed

lemma CollectState_succeeds:
  assumes "list_all well_placed (present (w_platforms w))"
  shows "\<exists>es fs b'. CollectState A w time b = Some (Inr (es, fs), b')"
proof -
  have "list_all (\<lambda>r. well_placed (pr_platform r)) (platform_records w)"
    using assms by (simp add: platform_records_def list_all_iff platform_record_def)
  from collect_entities_succeeds [OF this, of A w "directory (platform_records w)" "[]" b]
  show ?thesis by (auto simp: CollectState_def Let_def)
qed

text \<open>
  C4. In every state the observers can reach, a collected state has one entity per platform, in
  order, with its liveness; every link has a positive rate, a nonnegative delay that is a
  number, a loss rate between 0 and 1 and another entity as its peer; headings lie in the
  circle or are NaN; every flow has the sizes and times the runner requires, and is active
  only when both its ends are alive and its source has a link to its target that is up.
\<close>

theorem collected_state_valid:
  assumes "bridge_ok b" and "list_all (\<lambda>e. message_ok (event_message e)) events"
    and "CollectState A w time (fold (observe A) events b) = Some (Inr (es, fs), b')"
  shows "list_all2 describes (platform_records w) es \<and> list_all valid_entity es \<and>
    list_all (valid_flow es) fs \<and> bridge_ok b'"
proof -
  have "bridge_ok (fold (observe A) events b)"
    using assms(1,2) by (induction events arbitrary: b) (simp_all add: bridge_ok_observe)
  from CollectState_result [OF this assms(3)] show ?thesis by blast
qed

definition sample_platform :: PlatformView where
  "sample_platform = \<lparr>pv_index = 1, pv_name = ''radar'', pv_broken = False, pv_deleted = False,
     pv_locationLLA = (Fin 0, Fin 0, Fin 0), pv_velocityNED = (Fin 0, Fin 0, Fin 0), pv_heading = Fin 0,
     pv_comms = []\<rparr>"

definition sample_world :: AfsimWorld where
  "sample_world = \<lparr>w_platforms = [Some sample_platform, None],
     w_relativeLocation = (\<lambda>_ _. (Fin 0, Fin 0, Fin 0))\<rparr>"

lemma sample_platform_placed: "well_placed sample_platform"
  by (simp add: well_placed_def sample_platform_def location_of_def in_range_def degrees_of_zero [simplified])

theorem collected_state_valid_witness:
  "\<exists>es fs b'. CollectState sample_afsim sample_world (Fin 1) (MessageTransmitted (Fin 0) (Some (radio 1))
      (Some (radio 2)) sample_message sample_bridge) = Some (Inr (es, fs), b') \<and>
    length es = 1 \<and> list_all valid_entity es \<and> list_all (valid_flow es) fs"
proof -
  let ?events = "[Transmitted (Fin 0) (Some (radio 1)) (Some (radio 2)) sample_message]"
  have m: "list_all (\<lambda>e. message_ok (event_message e)) ?events"
    by (simp add: message_ok_def sample_message_def)
  have "list_all well_placed (present (w_platforms sample_world))"
    by (simp add: sample_world_def present_def sample_platform_placed)
  from CollectState_succeeds [OF this] obtain es fs b' where
    c: "CollectState sample_afsim sample_world (Fin 1) (fold (observe sample_afsim) ?events sample_bridge) =
      Some (Inr (es, fs), b')" by blast
  from collected_state_valid [OF sample_bridge_ok(1) m c] c show ?thesis
    by (auto simp: sample_world_def platform_records_def present_def dest: list_all2_lengthD)
qed

end
