(* ===== verification/ControllerProgress.thy ===== *)
theory ControllerProgress
  imports ControllerStream
begin

text \<open>
  Progress: the worker thread of a client that has been started and not stopped is never stuck.
  From every reachable state some behaviour of the network and of the worker, without any
  further call, leads to a served connection on which nothing waits.
\<close>

section \<open>A running client has a thread\<close>

definition running_has_thread :: "Client \<Rightarrow> bool" where
  "running_has_thread c \<longleftrightarrow> (mRunning c \<longrightarrow> worker c \<noteq> No_Thread)"

lemma running_has_thread_step:
  assumes "client_step config c c'" and "running_has_thread c"
  shows "running_has_thread c'"
  using assms
  by (cases rule: client_step.cases)
    (auto simp: running_has_thread_def client_steps Let_def split: if_splits prod.splits)

lemma running_has_thread_reachable: "client_reachable config c \<Longrightarrow> running_has_thread c"
proof (induction rule: client_reachable.induct)
  case (created c)
  then show ?case by (auto simp: new_client_def running_has_thread_def split: if_splits)
next
  case (stepped c c')
  then show ?case using running_has_thread_step by blast
qed

section \<open>Steps of the worker that only send\<close>

text \<open>A step of the worker that reads nothing and answers no call.\<close>

definition quiet_step :: "TcpClientConfig \<Rightarrow> Client \<Rightarrow> Client \<Rightarrow> bool" where
  "quiet_step config c c' \<longleftrightarrow> client_step config c c' \<and> g_calls c' = g_calls c \<and> g_lines c' = g_lines c \<and>
     mRunning c' = mRunning c \<and> mHandler c' = mHandler c"

definition caught_up :: "Client \<Rightarrow> bool" where
  "caught_up c \<longleftrightarrow> worker c = Serving \<and> current c = [] \<and> mPending c = []"

lemma SendAll_at_once: "m \<noteq> [] \<Longrightarrow> SendAll [Sent (length m)] m 0 = (m, Some True)"
  by simp

lemma serving_catches_up:
  assumes "worker c = Serving"
  shows "\<exists>c'. (quiet_step config)\<^sup>*\<^sup>* c c' \<and> caught_up c'"
  using assms
proof (induction "2 * length (mPending c) + (if current c = [] then 0 else 1)" arbitrary: c rule: less_induct)
  case less
  have send: "quiet_step config c (sent_step (current c) c)" if "worker c = Serving" "current c \<noteq> []" for c
    using client_step.sent [OF that SendAll_at_once [OF that(2)]] that
    by (simp add: quiet_step_def sent_step_def)
  consider "current c \<noteq> []" | "current c = []" "mPending c \<noteq> []" | "caught_up c"
    using less.prems by (auto simp: caught_up_def)
  then show ?case
  proof cases
    case 1
    let ?c = "sent_step (current c) c"
    have "\<exists>c'. (quiet_step config)\<^sup>*\<^sup>* ?c c' \<and> caught_up c'"
      using 1 less.prems by (intro less.hyps) (simp_all add: sent_step_def)
    then show ?thesis using send [OF less.prems 1] by (meson converse_rtranclp_into_rtranclp)
  next
    case 2
    let ?c = "take_step c"
    have "quiet_step config c ?c"
      using client_step.take_next [OF less.prems] by (simp add: quiet_step_def take_step_def)
    moreover have "\<exists>c'. (quiet_step config)\<^sup>*\<^sup>* ?c c' \<and> caught_up c'"
      using 2 less.prems by (intro less.hyps; cases "mPending c"; simp add: take_step_def)
    ultimately show ?thesis by (meson converse_rtranclp_into_rtranclp)
  next
    case 3
    then show ?thesis by blast
  qed
qed

lemma running_catches_up:
  assumes "running_has_thread c" and "mRunning c"
  shows "\<exists>c'. (quiet_step config)\<^sup>*\<^sup>* c c' \<and> caught_up c'"
proof -
  have opened: "\<exists>c'. (quiet_step config)\<^sup>*\<^sup>* c c' \<and> caught_up c'" if "worker c = Opened" for c
  proof -
    have "quiet_step config c (open_step c)"
      using client_step.opened [OF that] by (simp add: quiet_step_def open_step_def)
    moreover have "worker (open_step c) = Serving" by (simp add: open_step_def)
    ultimately show ?thesis using serving_catches_up by (meson converse_rtranclp_into_rtranclp)
  qed
  have connecting: "\<exists>c'. (quiet_step config)\<^sup>*\<^sup>* c c' \<and> caught_up c'" if "worker c = Connecting" "mRunning c" for c
  proof -
    have "quiet_step config c (connected_step c)"
      using connects [OF that] by (simp add: quiet_step_def connected_step_def)
    moreover have "worker (connected_step c) = Opened" by (simp add: connected_step_def)
    ultimately show ?thesis using opened by (meson converse_rtranclp_into_rtranclp)
  qed
  have closing: "\<exists>c'. (quiet_step config)\<^sup>*\<^sup>* c c' \<and> caught_up c'" if "worker c = Closing"
  proof -
    have "quiet_step config c (close_step c)"
      using client_step.close [OF that] by (simp add: quiet_step_def close_step_def)
    moreover have "worker (close_step c) = Connecting" "mRunning (close_step c)"
      using assms(2) by (simp_all add: close_step_def)
    ultimately show ?thesis using connecting by (meson converse_rtranclp_into_rtranclp)
  qed
  show ?thesis
    using assms opened connecting closing serving_catches_up
    by (cases "worker c") (auto simp: running_has_thread_def)
qed

section \<open>The controller's runs contain them\<close>

lemma controls_quiet:
  assumes "(quiet_step config)\<^sup>*\<^sup>* (mClient c) client" and "controls config c accepted"
  shows "controls config (c\<lparr>mClient := client\<rparr>) accepted \<and> g_calls client = g_calls (mClient c) \<and>
    mRunning client = mRunning (mClient c)"
  using assms(1)
proof (induction rule: rtranclp_induct)
  case base
  then show ?case using assms(2) by simp
next
  case (step c1 c2)
  then have "client_step config (mClient (c\<lparr>mClient := c1\<rparr>)) c2"
    and quiet: "g_calls c2 = g_calls (mClient (c\<lparr>mClient := c1\<rparr>))" "g_lines c2 = g_lines c1"
    by (simp_all add: quiet_step_def)
  from controls.network [OF conjunct1 [OF step.IH] this(1,2)] quiet step
  show ?case by (simp add: handle_lines_def quiet_step_def)
qed

lemma controls_reachable: "controls config c accepted \<Longrightarrow> client_reachable config (mClient c)"
  using controller_ok_controls by (auto simp: controller_ok_def)

text \<open>
  C8. From every reachable state of a started controller, whatever broke or was lost, some
  steps of the network and the worker alone, without a further call, lead to a state of the
  same run in which a connection is served, nothing waits to be sent, and the last accepted
  state is still the same: recovery is always possible, and no state is a dead end.
\<close>

theorem can_always_catch_up:
  assumes "controls config c accepted" and "mRunning (mClient c)"
  shows "\<exists>client. (quiet_step config)\<^sup>*\<^sup>* (mClient c) client \<and> controls config (c\<lparr>mClient := client\<rparr>) accepted \<and>
    worker client = Serving \<and> current client = [] \<and> mPending client = [] \<and>
    g_calls client = g_calls (mClient c)"
proof -
  obtain client where "(quiet_step config)\<^sup>*\<^sup>* (mClient c) client" "caught_up client"
    using running_catches_up [OF running_has_thread_reachable [OF controls_reachable [OF assms(1)]] assms(2)]
    by blast
  then show ?thesis
    using controls_quiet [OF _ assms(1)] unfolding caught_up_def by blast
qed

theorem can_always_catch_up_witness:
  "\<exists>client. (quiet_step small_config)\<^sup>*\<^sup>* (Start (mClient submitted)) client \<and> worker client = Serving \<and>
    mPending client = []"
proof -
  have idle: "worker (mClient submitted) = No_Thread" "\<not> mRunning (mClient submitted)"
    by (simp_all add: submitted_eval(1) new_client_def small_config_def default_config_def client_steps)
  have sub: "controls small_config submitted [(one_entity, [])]"
    by (rule submitted_eval(2))
  have "client_step small_config (mClient submitted) (Start (mClient submitted))"
    using idle(1) by (rule client_step.start)
  then have "controls small_config (submitted\<lparr>mClient := Start (mClient submitted)\<rparr>) [(one_entity, [])]"
    using controls.network [OF sub, of "Start (mClient submitted)"] by (simp add: Start_def handle_lines_def)
  from can_always_catch_up [OF this] idle show ?thesis by (auto simp: Start_def)
qed

end
