(* ===== verification/ExtensionStream.thy ===== *)
theory ExtensionStream
  imports ExtensionCollect ControllerProgress
begin

text \<open>
  The whole bridge, from AFSIM to the peer: the runs of the extension together with its worker
  thread, what the peer then holds, and when a simulation step succeeds.
\<close>

section \<open>Identifiers\<close>

lemma split_at:
  assumes "c \<notin> set xs" and "c \<notin> set ys" and "xs @ c # us = ys @ c # vs"
  shows "xs = ys \<and> us = vs"
  using assms
proof (induction xs arbitrary: ys)
  case Nil
  then show ?case by (cases ys) auto
next
  case (Cons x xs)
  then show ?case by (cases ys) auto
qed

lemma split_at_last:
  assumes "c \<notin> set us" and "c \<notin> set vs" and "xs @ c # us = ys @ c # vs"
  shows "xs = ys \<and> us = vs"
  using split_at [of c "rev us" "rev vs" "rev xs" "rev ys"] arg_cong [OF assms(3), of rev] assms(1,2)
  by simp

definition colon_free :: "FlowKey \<Rightarrow> bool" where
  "colon_free = (\<lambda>(source, transmitter, target, receiver, messageType, messageSubType).
     CHR '':'' \<notin> set transmitter \<and> CHR '':'' \<notin> set receiver \<and> CHR '':'' \<notin> set messageType)"

lemma digits_free: "all_digits ds \<Longrightarrow> c \<notin> set ds" if "\<not> c_isdigit c"
  using that by (auto simp: all_digits_def list_all_iff)

lemma not_digits: "\<not> c_isdigit (CHR '':'')" "\<not> c_isdigit (CHR ''>'')"
  by (simp_all add: c_isdigit_def byte_of_def)

lemma flow_id_inj:
  assumes "flow_id k = flow_id l" and "colon_free k" and "colon_free l"
    and "all_digits (fst k)" "all_digits (fst (snd (snd k)))" "all_digits (fst l)" "all_digits (fst (snd (snd l)))"
  shows "k = l"
proof -
  obtain a b c d e f where k: "k = (a, b, c, d, e, f)" by (cases k)
  obtain a' b' c' d' e' f' where l: "l = (a', b', c', d', e', f')" by (cases l)
  note free = digits_free [OF not_digits(1)] digits_free [OF not_digits(2)]
  have "a @ CHR '':'' # b @ ''->'' @ c @ CHR '':'' # d @ CHR '':'' # e @ CHR '':'' # f =
      a' @ CHR '':'' # b' @ ''->'' @ c' @ CHR '':'' # d' @ CHR '':'' # e' @ CHR '':'' # f'"
    using assms(1) by (simp add: flow_id_def k l)
  from split_at [OF _ _ this] assms(4,6) free have a: "a = a'" and
    "(b @ ''->'' @ c) @ CHR '':'' # d @ CHR '':'' # e @ CHR '':'' # f =
      (b' @ ''->'' @ c') @ CHR '':'' # d' @ CHR '':'' # e' @ CHR '':'' # f'"
    by (simp_all add: k l)
  from split_at [OF _ _ this(2)] assms(2,3,5,7) free have bc: "b @ ''->'' @ c = b' @ ''->'' @ c'" and
    de: "d @ CHR '':'' # e @ CHR '':'' # f = d' @ CHR '':'' # e' @ CHR '':'' # f'"
    by (simp_all add: k l colon_free_def)
  from bc have "(b @ ''-'') @ CHR ''>'' # c = (b' @ ''-'') @ CHR ''>'' # c'" by simp
  from split_at_last [OF _ _ this] assms(5,7) free have b: "b = b'" "c = c'" by (simp_all add: k l)
  from split_at [OF _ _ de] assms(2,3) have d: "d = d'" and "e @ CHR '':'' # f = e' @ CHR '':'' # f'"
    by (simp_all add: k l colon_free_def)
  from split_at [OF _ _ this(2)] assms(2,3) have "e = e' \<and> f = f'" by (simp add: k l colon_free_def)
  with a b d show ?thesis by (simp add: k l)
qed

text \<open>A colon in a name makes two streams share an identifier.\<close>

lemma flow_ids_collide:
  "flow_id (''1'', ''a'', ''2'', ''r'', ''t:u'', ''v'') = flow_id (''1'', ''a'', ''2'', ''r'', ''t'', ''u:v'')"
  by (simp add: flow_id_def)

lemma show_nat_inj: "show_nat m = show_nat n \<longleftrightarrow> m = n"
proof
  assume "show_nat m = show_nat n"
  then have "digits_value 10 (show_nat m) = digits_value 10 (show_nat n)" by (rule arg_cong)
  then show "m = n" by simp
qed simp

lemma distinct_map_fst_imp:
  assumes "\<And>x y. x \<in> set xs \<Longrightarrow> y \<in> set xs \<Longrightarrow> g x = g y \<Longrightarrow> fst x = fst y" and "distinct (map fst xs)"
  shows "distinct (map g xs)"
proof -
  have xs: "distinct xs" "inj_on fst (set xs)" using assms(2) by (simp_all add: distinct_map)
  have "inj_on g (set xs)"
  proof (rule inj_onI)
    fix x y
    assume "x \<in> set xs" "y \<in> set xs" "g x = g y"
    with assms(1) xs(2) show "x = y" by (blast dest: inj_onD)
  qed
  with xs(1) show ?thesis by (simp add: distinct_map)
qed

definition named_apart :: "AfsimWorld \<Rightarrow> Bridge \<Rightarrow> bool" where
  "named_apart w b \<longleftrightarrow> distinct (map pv_index (present (w_platforms w))) \<and>
     list_all (\<lambda>(key, f). colon_free key) (mObservedFlows b)"

lemma collected_ids_valid:
  assumes "bridge_ok b" and "named_apart w b" and "CollectState A w time b = Some (Inr (es, fs), b')"
  shows "valid_state (es, fs)"
proof -
  from CollectState_result [OF assms(1,3)] have es: "list_all2 describes (platform_records w) es"
    and fs: "map flow_flowId fs = map (of_flowId \<circ> snd) (mObservedFlows b)" by simp_all
  have "map ent_entityId es = map pr_entityId (platform_records w)"
    using es by (induction rule: list_all2_induct) (simp_all add: describes_def)
  also have "\<dots> = map show_nat (map pv_index (present (w_platforms w)))"
    by (simp add: platform_records_def platform_record_def)
  finally have ids: "map ent_entityId es = map show_nat (map pv_index (present (w_platforms w)))" .
  have "distinct (map ent_entityId es)"
    unfolding ids distinct_map [of show_nat] using assms(2) by (simp add: named_apart_def inj_on_def show_nat_inj)
  moreover have "[] \<notin> set (map ent_entityId es)" unfolding ids by (simp add: image_iff show_nat_nonempty [THEN not_sym])
  ultimately have 1: "ids_ok ent_entityId es" by (simp add: ids_ok_def)
  have ok: "of_flowId (snd x) = flow_id (fst x) \<and> colon_free (fst x) \<and> all_digits (fst (fst x)) \<and>
      all_digits (fst (snd (snd (fst x))))" if "x \<in> set (mObservedFlows b)" for x
  proof -
    have "flow_ok x" "case x of (key, f) \<Rightarrow> colon_free key"
      using that assms(1,2) by (simp_all add: bridge_ok_def named_apart_def list_all_iff)
    then show ?thesis by (cases x) (simp add: flow_ok_def)
  qed
  have "distinct (map fst (mObservedFlows b))"
    using assms(1) cmap.distinct_keys [of "mObservedFlows b"] by (simp add: bridge_ok_def)
  then have "distinct (map (of_flowId \<circ> snd) (mObservedFlows b))"
  proof (rule distinct_map_fst_imp [rotated])
    fix x y
    assume x: "x \<in> set (mObservedFlows b)" and y: "y \<in> set (mObservedFlows b)"
      and eq: "(of_flowId \<circ> snd) x = (of_flowId \<circ> snd) y"
    from ok [OF x] ok [OF y] eq have "flow_id (fst x) = flow_id (fst y)" by simp
    with ok [OF x] ok [OF y] show "fst x = fst y" by (simp add: flow_id_inj)
  qed
  moreover have "[] \<notin> set (map (of_flowId \<circ> snd) (mObservedFlows b))"
  proof -
    have "of_flowId (snd x) \<noteq> []" if "x \<in> set (mObservedFlows b)" for x
      using ok [OF that] by (simp add: flow_id_def split: prod.split)
    then show ?thesis by force
  qed
  ultimately have "ids_ok flow_flowId fs" unfolding ids_ok_def fs [symmetric] by simp
  with 1 show ?thesis by (simp add: valid_state_def)
qed

section \<open>The runs of the extension\<close>

text \<open>
  The state collected at a step, and the runs, with the states the controller accepted. The
  simulation thread starts and ends, observes messages, applies effects and collects and
  submits states; the worker thread and the network may do anything in between.
\<close>

definition collected_state :: "Afsim \<Rightarrow> AfsimWorld \<Rightarrow> double \<Rightarrow> Bridge \<Rightarrow> accepted" where
  "collected_state A w time b = (case CollectState A w time b of Some (Inr s, _) \<Rightarrow> s | _ \<Rightarrow> ([], []))"

definition network_moves :: "Client \<Rightarrow> Bridge \<Rightarrow> Bridge" where
  "network_moves client b =
     (let c = mController b in
      b\<lparr>mController := handle_lines (drop (length (g_lines (mClient c))) (g_lines client)) (c\<lparr>mClient := client\<rparr>)\<rparr>)"

inductive simulates :: "Afsim \<Rightarrow> environment \<Rightarrow> Bridge \<Rightarrow> accepted list \<Rightarrow> bool" for A env where
  created: "new_bridge env clock = Inr b \<Longrightarrow> simulates A env b []"
| started: "simulates A env b accs \<Longrightarrow> worker (mClient (mController b)) = No_Thread \<Longrightarrow>
    simulates A env (snd (StartExtension time b)) accs"
| completed: "simulates A env b accs \<Longrightarrow> simulates A env (CompleteExtension time b) accs"
| observed: "simulates A env b accs \<Longrightarrow> mCallbacks b \<Longrightarrow> message_ok (event_message event) \<Longrightarrow>
    simulates A env (observe A event b) accs"
| effects: "simulates A env b accs \<Longrightarrow> simulates A env (snd (apply_effects b)) accs"
| collected: "simulates A env b accs \<Longrightarrow> collect_and_submit A w time applied b = Some (r, b') \<Longrightarrow>
    simulates A env (report_error r b') (if r = Inr () then accs @ [collected_state A w time b] else accs)"
| network: "simulates A env b accs \<Longrightarrow>
    client_step (client_config (mConfig b)) (mClient (mController b)) client \<Longrightarrow>
    g_calls client = g_calls (mClient (mController b)) \<Longrightarrow> simulates A env (network_moves client b) accs"

definition state_ok :: "accepted \<Rightarrow> bool" where
  "state_ok s \<longleftrightarrow> list_all valid_entity (fst s) \<and> list_all (valid_flow (fst s)) (snd s)"

definition run_ok :: "environment \<Rightarrow> Bridge \<Rightarrow> accepted list \<Rightarrow> bool" where
  "run_ok env b accs \<longleftrightarrow> bridge_ok b \<and> mConfig b = runtime_config env \<and> list_all state_ok accs \<and>
     controls (client_config (runtime_config env)) (mController b) accs"

lemma submit_state_result:
  assumes "submit_state A time applied es fs b = (r, b')"
  shows "bridge_ok b' = bridge_ok b \<and> mConfig b' = mConfig b \<and>
    (\<exists>rid t result. SubmitCurrentState (client_config (mConfig b)) rid t es fs (mController b) =
      (result, mController b') \<and> (r = Inr () \<longleftrightarrow> is_ok result))"
proof -
  define b1 where "b1 = b\<lparr>mTick := mTick b + 1\<rparr>"
  define rid where "rid = mRunId b1 @ CHR ''-'' # show_nat (unat (mTick b1))"
  define t where "t = cast_u64 A (d_mul (d_max (Fin 0) time) (Fin 1000))"
  obtain result c where submit: "SubmitCurrentState (client_config (mConfig b1)) rid t es fs (mController b1) = (result, c)"
    by (rule prod.exhaust)
  have frame: "mConfig b1 = mConfig b" "mController b1 = mController b"
    "bridge_ok (b1\<lparr>mController := c\<rparr>) = bridge_ok b"
    by (simp_all add: b1_def bridge_ok_def)
  have run: "submit_state A time applied es fs b =
    (case result of Inl e \<Rightarrow> (Inl e, b1\<lparr>mController := c\<rparr>)
     | Inr outcome \<Rightarrow>
         (Inr (), if rc_traceTicks (mConfig (b1\<lparr>mController := c\<rparr>)) \<or>
            mTick (b1\<lparr>mController := c\<rparr>) \<le> 2 \<or> 0 < applied
          then AppendLog (tick_line time es fs applied (ControllerIsConnected c) outcome) (b1\<lparr>mController := c\<rparr>)
          else b1\<lparr>mController := c\<rparr>))"
    unfolding submit_state_def Let_def b1_def [symmetric] t_def [symmetric]
    using submit by (simp add: rid_def frame(1))
  have "(r = Inr () \<longleftrightarrow> is_ok result) \<and> mController b' = c \<and> mConfig b' = mConfig b \<and>
    bridge_ok b' = bridge_ok b"
  proof (cases result)
    case (Inl e)
    then have "r = Inl e" "b' = b1\<lparr>mController := c\<rparr>" using assms unfolding run by simp_all
    then show ?thesis using Inl frame by simp
  next
    case (Inr outcome)
    then have "r = Inr ()" and "b' = AppendLog (tick_line time es fs applied (ControllerIsConnected c) outcome)
        (b1\<lparr>mController := c\<rparr>) \<or> b' = b1\<lparr>mController := c\<rparr>"
      using assms unfolding run by (simp_all split: if_splits)
    then show ?thesis using Inr frame by (elim disjE) (simp_all add: bridge_ok_def)
  qed
  with submit frame(1,2) show ?thesis by auto
qed

lemma run_ok_collected:
  assumes "run_ok env b accs" and "collect_and_submit A w time applied b = Some (r, b')"
  shows "run_ok env (report_error r b') (if r = Inr () then accs @ [collected_state A w time b] else accs)"
proof -
  let ?config = "client_config (runtime_config env)"
  have ok: "bridge_ok b" "mConfig b = runtime_config env" "list_all state_ok accs" "controls ?config (mController b) accs"
    using assms(1) by (simp_all add: run_ok_def)
  have report: "mConfig (report_error r b') = mConfig b'" "mController (report_error r b') = mController b'"
    "bridge_ok b' \<Longrightarrow> bridge_ok (report_error r b')"
    by (auto simp: report_error_def bridge_ok_log split: sum.split)
  obtain s b1 where s: "CollectState A w time b = Some (s, b1)"
    using assms(2) by (auto simp: collect_and_submit_def split: option.splits)
  note collected = CollectState_result [OF ok(1) s]
  show ?thesis
  proof (cases s)
    case (Inl e)
    then have "r = Inl e" "b' = b1" using assms(2) by (simp_all add: collect_and_submit_def s)
    then show ?thesis using ok collected report by (simp add: run_ok_def same_rest_def)
  next
    case (Inr p)
    obtain es fs where p: "p = (es, fs)" by (cases p)
    have "submit_state A time applied es fs b1 = (r, b')"
      using assms(2) by (simp add: collect_and_submit_def s Inr p)
    from submit_state_result [OF this] obtain rid t result where b':
      "bridge_ok b' = bridge_ok b1" "mConfig b' = mConfig b1" "r = Inr () \<longleftrightarrow> is_ok result"
      "SubmitCurrentState ?config rid t es fs (mController b) = (result, mController b')"
      using collected ok(2) by (auto simp: same_rest_def)
    have same: "bridge_ok b1" "mConfig b1 = mConfig b" "list_all valid_entity es" "list_all (valid_flow es) fs"
      using collected by (auto simp: same_rest_def Inr p)
    have "controls ?config (mController b') (if is_ok result then accs @ [(es, fs)] else accs)"
      using b'(4) controls.accepted [OF ok(4)] controls.rejected [OF ok(4)] by (cases result) auto
    moreover have "collected_state A w time b = (es, fs)" by (simp add: collected_state_def s Inr p)
    ultimately show ?thesis
      using b'(1-3) same ok report by (cases "is_ok result") (simp_all add: run_ok_def state_ok_def)
  qed
qed

lemma apply_effects_result:
  "bridge_ok (snd (apply_effects b)) = bridge_ok b \<and> mConfig (snd (apply_effects b)) = mConfig b \<and>
    mController (snd (apply_effects b)) = (mController b)\<lparr>mPendingEffects := []\<rparr> \<and>
    mObservedFlows (snd (apply_effects b)) = mObservedFlows b"
  by (simp add: apply_effects_def ApplyPendingEffects_def case_prod_beta Let_def bridge_ok_def)

lemma observe_frame: "mController (observe A event b) = mController b \<and> mConfig (observe A event b) = mConfig b"
  by (cases event)
    (simp_all add: MessageTransmitted_def MessageDeliveryAttempt_def MessageReceived_def MessageDiscarded_def
      Let_def case_prod_beta split: option.split)

lemma run_ok_simulates: "simulates A env b accs \<Longrightarrow> run_ok env b accs"
proof (induction rule: simulates.induct)
  case (created clock b)
  from new_bridge_ok [of env clock] created obtain c where b: "bridge_ok b" "mConfig b = runtime_config env"
    "new_controller (client_config (runtime_config env)) = Inr c"
    "c = (mController b)\<lparr>mEffectErrorHandler := False\<rparr>" "mEffectErrorHandler (mController b)" by auto
  have "SetEffectErrorHandler True c = mController b"
    using b(4,5) by (cases "mController b") (simp add: SetEffectErrorHandler_def)
  with controls.set_error_handler [OF controls.created [OF b(3)], of True]
  have "controls (client_config (runtime_config env)) (mController b) []" by simp
  with b show ?case by (simp add: run_ok_def state_ok_def)
next
  case (started b accs time)
  let ?client = "Start (mClient (mController b))"
  have "controls (client_config (runtime_config env)) (mController b) accs" using started.IH by (simp add: run_ok_def)
  from controls.network [OF this client_step.start [OF started.hyps(2)]]
  have "controls (client_config (runtime_config env)) ((mController b)\<lparr>mClient := ?client\<rparr>) accs"
    by (simp add: Start_def handle_lines_def)
  with started.IH show ?case by (auto simp: StartExtension_def ControllerStart_def run_ok_def bridge_ok_def Let_def)
next
  case (completed b accs time)
  have "controls (client_config (runtime_config env)) (mController b) accs" using completed.IH by (simp add: run_ok_def)
  from controls.network [OF this client_step.stop_request]
  have "controls (client_config (runtime_config env)) (ControllerStop (mController b)) accs"
    by (simp add: Stop_request_def handle_lines_def ControllerStop_def)
  with completed.IH show ?case by (auto simp: CompleteExtension_def run_ok_def bridge_ok_def Let_def)
next
  case (observed b accs event)
  then show ?case using observe_frame [of A event b] by (simp add: run_ok_def bridge_ok_observe)
next
  case (effects b accs)
  then show ?case using apply_effects_result [of b] controls.effects by (simp add: run_ok_def)
next
  case (collected b accs w time applied r b')
  then show ?case using run_ok_collected by blast
next
  case (network b accs client)
  let ?b = "network_moves client b"
  have "controls (client_config (runtime_config env)) (mController b) accs"
    and "client_step (client_config (runtime_config env)) (mClient (mController b)) client"
    using network by (simp_all add: run_ok_def)
  from controls.network [OF this network.hyps(3)] network.IH
  show ?case by (auto simp: run_ok_def network_moves_def Let_def bridge_ok_def)
qed

section \<open>A step succeeds\<close>

lemma SubmitCurrentState_running:
  "SubmitCurrentState config r t es fs c = (result, c') \<Longrightarrow> mRunning (mClient c') = mRunning (mClient c)"
  by (auto simp: SubmitCurrentState_def SubmitInitial_def SubmitDelta_def QueueInitial_def QueueDelta_def Let_def
      split: if_splits sum.splits prod.splits)

lemma step_succeeds:
  assumes "simulates A env b accs" and "named_apart w b" and "list_all well_placed (present (w_platforms w))"
  shows "\<exists>b' es fs. Tick A w time b = Some (Inr (), b') \<and> simulates A env b' (accs @ [(es, fs)]) \<and>
    list_all2 describes (platform_records w) es \<and>
    mRunning (mClient (mController b')) = mRunning (mClient (mController b)) \<and>
    (\<exists>b1 b2. mEnuFrame b1 = mEnuFrame b \<and> CollectState A w time b1 = Some (Inr (es, fs), b2))"
proof -
  obtain applied b1 where b1: "apply_effects b = (applied, b1)" by (cases "apply_effects b")
  then have b1': "b1 = snd (apply_effects b)" by simp
  have sim: "simulates A env b1 accs" unfolding b1' using assms(1) by (rule simulates.effects)
  then have ok: "bridge_ok b1" and "controls (client_config (mConfig b1)) (mController b1) accs"
    using run_ok_simulates [OF sim] by (auto simp: run_ok_def)
  from controller_ok_controls [OF this(2)] have c: "controller_ok (client_config (mConfig b1)) (mController b1) accs" .
  have apart: "named_apart w b1" using assms(2) apply_effects_result [of b] by (simp add: b1' named_apart_def)
  obtain es fs b2 where collected: "CollectState A w time b1 = Some (Inr (es, fs), b2)"
    using CollectState_succeeds [OF assms(3)] by blast
  note valid = collected_ids_valid [OF ok apart collected]
  have same: "mConfig b2 = mConfig b1" "mController b2 = mController b1" "list_all2 describes (platform_records w) es"
    using CollectState_result [OF ok collected] by (auto simp: same_rest_def)
  obtain r b' where submit: "submit_state A time applied es fs b2 = (r, b')"
    by (cases "submit_state A time applied es fs b2")
  from submit_state_result [OF this] same obtain rid t result where
    s: "SubmitCurrentState (client_config (mConfig b1)) rid t es fs (mController b1) = (result, mController b')"
      "r = Inr () \<longleftrightarrow> is_ok result" by auto
  have "is_ok result"
    using controller_ok_submit [OF c, where r = rid and t = t and es = es and fs = fs] valid by (cases result) (simp_all add: s(1))
  then have r: "r = Inr ()" using s(2) by simp
  have step: "collect_and_submit A w time applied b1 = Some (Inr (), b')"
    by (simp add: collect_and_submit_def collected submit r)
  from simulates.collected [OF sim this]
  have "simulates A env b' (accs @ [(es, fs)])" by (simp add: report_error_def collected_state_def collected)
  moreover have "Tick A w time b = Some (Inr (), b')" by (simp add: Tick_def b1 step)
  moreover have "mRunning (mClient (mController b')) = mRunning (mClient (mController b))"
    using SubmitCurrentState_running [OF s(1)] apply_effects_result [of b] by (simp add: b1')
  moreover have "mEnuFrame b1 = mEnuFrame b"
    by (simp add: b1' apply_effects_def case_prod_beta Let_def)
  ultimately show ?thesis using same collected by blast
qed

text \<open>
  C3. In every run of the extension, a step with finite platform positions within the
  geodetic ranges, headings up to $2^{52}$ degrees, distinct platform indices and names without
  a colon returns and throws nothing: the state it collected describes every platform and is
  the last accepted one. The delta tracker's rejections (duplicate or empty identifiers), the
  geodetic errors and the endless loops of the normalisation of angles are all excluded.
\<close>

theorem tick_succeeds:
  assumes "simulates A env b accs" and "named_apart w b" and "list_all well_placed (present (w_platforms w))"
  shows "\<exists>b' es fs. Tick A w time b = Some (Inr (), b') \<and> simulates A env b' (accs @ [(es, fs)]) \<and>
    list_all2 describes (platform_records w) es"
  using step_succeeds [OF assms] by blast

lemma sample_apart: "named_apart sample_world sample_bridge"
proof -
  have "mObservedFlows sample_bridge = []"
    using sample_bridge_ok(2) by (auto simp: new_bridge_def Let_def rbind_eq_Inr dest: arg_cong [where f = mObservedFlows])
  then show ?thesis by (simp add: named_apart_def sample_world_def present_def)
qed

lemma sample_placed: "list_all well_placed (present (w_platforms sample_world))"
  by (simp add: sample_world_def present_def sample_platform_placed)

theorem tick_succeeds_witness:
  "\<exists>b' es fs. Tick sample_afsim sample_world (Fin 0) sample_bridge = Some (Inr (), b') \<and>
    simulates sample_afsim (\<lambda>_. None) b' [(es, fs)] \<and> length es = 1"
  using tick_succeeds [OF simulates.created [OF sample_bridge_ok(2), of sample_afsim] sample_apart sample_placed,
      of "Fin 0"]
  by (fastforce simp: sample_world_def platform_records_def present_def dest: list_all2_lengthD)

section \<open>What the peer holds\<close>

lemma simulates_quiet:
  assumes "(quiet_step (client_config (mConfig b)))\<^sup>*\<^sup>* (mClient (mController b)) client" and "simulates A env b accs"
  shows "simulates A env (b\<lparr>mController := (mController b)\<lparr>mClient := client\<rparr>\<rparr>) accs"
  using assms(1)
proof (induction rule: rtranclp_induct)
  case base
  then show ?case using assms(2) by simp
next
  case (step c1 c2)
  let ?b = "b\<lparr>mController := (mController b)\<lparr>mClient := c1\<rparr>\<rparr>"
  have "client_step (client_config (mConfig ?b)) (mClient (mController ?b)) c2"
    and quiet: "g_calls c2 = g_calls (mClient (mController ?b))" "g_lines c2 = g_lines c1"
    using step.hyps(2) by (simp_all add: quiet_step_def)
  from simulates.network [OF step.IH this(1,2)] quiet(2)
  show ?case by (simp add: network_moves_def handle_lines_def)
qed

text \<open>
  C1. The end-to-end contract of the extension. In every run, with any observations, any
  failures of the network and any rejected steps, once a connection is served and nothing waits
  to be sent, the lines the peer has read on it are JSON texts with exactly one reading, and a
  peer that starts with nothing and applies these JSON values holds exactly the objects that
  describe the entities and flows the extension collected at its last successful step, each under
  its identifier with every field as collected (doubles to the 15 significant digits that are
  sent), and no others. What was collected satisfies the value ranges of C4. The doubles of the
  collected states are finite.
\<close>

theorem peer_follows_simulation:
  assumes "simulates A env b (accs @ [(es, fs)])" and "list_all finite_state (accs @ [(es, fs)])"
    and "worker (mClient (mController b)) = Serving"
    and "current (mClient (mController b)) = []" and "mPending (mClient (mController b)) = []"
  shows "list_all valid_entity es \<and> list_all (valid_flow es) fs \<and>
    (\<exists>vs. (\<forall>ws. list_all2 json_text (fst (DispatchLines True (g_bytes (mClient (mController b))))) ws \<longleftrightarrow> ws = vs) \<and>
      fold peer_step vs None = Some (described ent_entityId entity_json es, described flow_flowId flow_json fs))"
proof -
  have "state_ok (es, fs)" and c: "controls (client_config (runtime_config env)) (mController b) (accs @ [(es, fs)])"
    using run_ok_simulates [OF assms(1)] by (simp_all add: run_ok_def)
  with peer_in_step [OF c assms(2-5)] show ?thesis by (simp add: state_ok_def)
qed

text \<open>The first step on the sample world: the origin of the local frame is the platform itself.\<close>

lemma sample_doubles:
  "fl 1 = Fin 1" "fl 90 = Fin 90" "fl 180 = Fin 180"
  "fl Wgs84EccentricitySquared = Fin (482380915665231 / 72057594037927936)"
  "fl Wgs84SemiMajorM = Fin 6378137" "fl 6378137 = Fin 6378137"
  "fl Pi = Fin (884279719003555 / 281474976710656)"
  "fl (71575213122262705 / 72057594037927936) = Fin (4473450820141419 / 4503599627370496)"
  "fl (28532282193624329756403 / 4503599627370496) = Fin (6802626179128725 / 1073741824)"
  "fl (6802626179128725 / 1073741824) = Fin (6802626179128725 / 1073741824)"
  by (simp_all add: Wgs84EccentricitySquared_def Wgs84SemiMajorM_def Pi_def double_eval)

lemmas sample_eval = sample_doubles sample_afsim_def geo_arith_def double_arith_def Radians_def d_sub_def signed_zero_def

lemma sample_ecef: "ToEcef (geo_arith sample_afsim) \<lparr>latitudeDeg = Fin 0, longitudeDeg = Fin 0, altitudeM = Fin 0\<rparr> =
    Inr (Fin 6378137, Fin 0, Fin 0)"
  by (simp add: ToEcef_def Validate_def sample_eval Let_def)

lemma sample_located:
  assumes "mEnuFrame b = None"
  shows "\<exists>p b'. locate sample_afsim sample_platform b = (Inr p, b') \<and> isfinite (xM p) \<and> isfinite (yM p) \<and> isfinite (zM p)"
  using assms
  by (simp add: locate_def location_of_def sample_platform_def new_frame_def ToEnu_def sample_ecef rotate_def
      to_position_def Let_def) (simp add: sample_eval)

lemma sample_collected_finite:
  assumes "mEnuFrame b = None" and "CollectState sample_afsim sample_world time b = Some (Inr (es, fs), b')"
  shows "finite_state (es, fs)"
proof -
  obtain p b1 where p: "locate sample_afsim sample_platform b = (Inr p, b1)" "isfinite (xM p)" "isfinite (yM p)" "isfinite (zM p)"
    using sample_located [OF assms(1)] by blast
  have r: "platform_records sample_world = [platform_record sample_platform]"
    by (simp add: sample_world_def platform_records_def present_def)
  have c: "comms_of (platform_record sample_platform) = []" "pr_platform (platform_record sample_platform) = sample_platform"
    by (simp_all add: comms_of_def present_def platform_record_def sample_platform_def)
  have h: "Degrees (pv_heading sample_platform) = Some (Fin 0)"
    by (simp add: sample_platform_def Degrees_def degrees_of_zero [simplified] degrees_up.simps [of "Fin 0"]
        degrees_down.simps [of "Fin 0"] d_le_def)
  have v: "velocity_of sample_platform = \<lparr>vxMps = Fin 0, vyMps = Fin 0, vzMps = NegZero\<rparr>"
    by (simp add: velocity_of_def sample_platform_def)
  show ?thesis
    using assms(2) p
    by (auto simp: CollectState_def r Let_def collect_entity_def c h finite_state_def entity_finite_def
        empty_entity_def v)
qed

text \<open>A run that starts, collects the sample world, connects and sends what waits.\<close>

theorem peer_follows_simulation_witness:
  "\<exists>b es fs vs objects flows. simulates sample_afsim (\<lambda>_. None) b [(es, fs)] \<and>
    list_all2 json_text (fst (DispatchLines True (g_bytes (mClient (mController b))))) vs \<and>
    fold peer_step vs None = Some (objects, flows) \<and> dom objects = {''1''}"
proof -
  let ?b = "snd (StartExtension (Fin 0) sample_bridge)"
  obtain client where "new_client (client_config (mConfig sample_bridge)) = Inr client"
    and "mClient (mController sample_bridge) = SetLineHandler True client"
    using new_bridge_ok [of "\<lambda>_. None" 7] by (auto simp: sample_bridge_def new_controller_def rbind_eq_Inr dest: arg_cong [where f = mClient])
  then have "worker (mClient (mController sample_bridge)) = No_Thread"
    by (auto simp: new_client_def SetLineHandler_def split: if_splits)
  from simulates.started [OF simulates.created [OF sample_bridge_ok(2)] this]
  have run: "simulates sample_afsim (\<lambda>_. None) ?b []" .
  have "mEnuFrame sample_bridge = None"
    using sample_bridge_ok(2) by (auto simp: new_bridge_def Let_def rbind_eq_Inr dest: arg_cong [where f = mEnuFrame])
  then have started: "named_apart sample_world ?b" "mRunning (mClient (mController ?b))" "mEnuFrame ?b = None"
    using sample_apart by (simp_all add: StartExtension_def ControllerStart_def Start_def named_apart_def Let_def)
  from step_succeeds [OF run started(1) sample_placed] started(2,3) obtain b es fs where
    b: "simulates sample_afsim (\<lambda>_. None) b ([] @ [(es, fs)])" "list_all2 describes (platform_records sample_world) es"
      "mRunning (mClient (mController b))" and fin: "finite_state (es, fs)"
    using sample_collected_finite by metis
  let ?config = "client_config (mConfig b)"
  have "controls ?config (mController b) ([] @ [(es, fs)])"
    using run_ok_simulates [OF b(1)] by (simp add: run_ok_def)
  from running_catches_up [OF running_has_thread_reachable [OF controls_reachable [OF this]] b(3)]
  obtain client where client: "(quiet_step ?config)\<^sup>*\<^sup>* (mClient (mController b)) client" "caught_up client"
    by blast
  let ?final = "b\<lparr>mController := (mController b)\<lparr>mClient := client\<rparr>\<rparr>"
  have one: "show_nat 1 = ''1''" by code_simp
  have "map ent_entityId es = [''1'']"
    using b(2) one by (auto simp: sample_world_def platform_records_def platform_record_def present_def describes_def
        sample_platform_def list_all2_Cons1)
  then have "dom (described ent_entityId entity_json es) = {''1''}"
    by (auto simp: described_def dom_map_of_conv_image_fst image_image)
  with peer_follows_simulation [OF simulates_quiet [OF client(1) b(1)]] client(2) simulates_quiet [OF client(1) b(1)] fin
  show ?thesis unfolding caught_up_def
    by (intro exI [of _ ?final] exI [of _ es] exI [of _ fs]) auto
qed

end
