(* ===== verification/Runner.thy ===== *)
theory Runner
  imports CxxText CxxMap
begin

text \<open>
  \<open>src/ns3_runner/afsim-ns3-runner.cc\<close>: the process that reads a scenario line by line, runs it
  in ns-3 and prints one result line per flow. ns-3 itself is not part of the repository: the
  addresses it assigns and the statistics it measures are arguments of the definitions.
\<close>

section \<open>Data\<close>

record NodeInput =
  node_index :: u32
  node_x :: double
  node_y :: double
  node_z :: double
  node_alive :: bool

record LinkInput =
  link_index :: u32
  link_source :: u32
  link_target :: u32
  link_dataRateBps :: u64
  link_delayMs :: double
  link_lossRate :: double
  link_up :: bool

record FlowInput =
  fl_index :: u32
  fl_source :: u32
  fl_target :: u32
  fl_packetSizeBytes :: u32
  fl_intervalMs :: u32
  fl_durationMs :: u32
  fl_enabled :: bool

record Scenario =
  sc_id :: string
  sc_expectedNodes :: u32
  sc_expectedLinks :: u32
  sc_expectedFlows :: u32
  sc_nodes :: "NodeInput list"
  sc_links :: "LinkInput list"
  sc_flows :: "FlowInput list"

definition empty_scenario :: Scenario where
  "empty_scenario = \<lparr>sc_id = [], sc_expectedNodes = 0, sc_expectedLinks = 0, sc_expectedFlows = 0,
     sc_nodes = [], sc_links = [], sc_flows = []\<rparr>"

section \<open>Reading fields\<close>

abbreviation tab :: char where "tab \<equiv> CHR 0x09"

text \<open>
  \<open>std::getline\<close> until it fails: a line that ends with a tab has no empty last part.
\<close>

function SplitTabs :: "string \<Rightarrow> string list" where
  "SplitTabs line =
     (if line = [] then []
      else takeWhile (\<lambda>c. c \<noteq> tab) line # SplitTabs (drop 1 (dropWhile (\<lambda>c. c \<noteq> tab) line)))"
  by pat_completeness auto
termination
proof (relation "measure length")
  fix line :: string
  assume "line \<noteq> []"
  then have "length (drop 1 (dropWhile (\<lambda>c. c \<noteq> tab) line)) < length line"
    using length_dropWhile_le [of "\<lambda>c. c \<noteq> tab" line] by (cases line) (auto simp: less_Suc_eq_le)
  then show "(drop 1 (dropWhile (\<lambda>c. c \<noteq> tab) line), line) \<in> measure length" by simp
qed simp

declare SplitTabs.simps [simp del]

definition ToUint32 :: "string \<Rightarrow> u32 result" where
  "ToUint32 v =
     rbind (stoull v) (\<lambda>parsed.
       if 0xFFFFFFFF < parsed then Inl (Runtime_Error ''integer exceeds uint32 range'')
       else Inr (ucast parsed))"

definition ToUint64 :: "string \<Rightarrow> u64 result" where
  "ToUint64 v = stoull v"

definition ToDouble :: "string \<Rightarrow> double result" where
  "ToDouble v = rbind (stod v) (\<lambda>(x, consumed). Inr x)"

definition ToBool :: "string \<Rightarrow> bool result" where
  "ToBool v =
     (if v = ''1'' then Inr True
      else if v = ''0'' then Inr False
      else Inl (Runtime_Error ''boolean must be 0 or 1''))"

section \<open>Validation\<close>

text \<open>The loop over the node indexes.\<close>

fun indexes_contiguous :: "NodeInput list \<Rightarrow> nat \<Rightarrow> bool" where
  "indexes_contiguous [] k = True"
| "indexes_contiguous (n # ns) k = (unat (node_index n) = k \<and> indexes_contiguous ns (k + 1))"

definition check_link :: "Scenario \<Rightarrow> LinkInput \<Rightarrow> unit \<Rightarrow> unit result" where
  "check_link scenario link _ =
     (if length (sc_nodes scenario) \<le> unat (link_source link) \<or> length (sc_nodes scenario) \<le> unat (link_target link)
      then Inl (Runtime_Error ''link references unknown node'')
      else if link_dataRateBps link = 0 \<or> d_lt (link_delayMs link) (Fin 0) \<or>
        d_lt (link_lossRate link) (Fin 0) \<or> d_lt (Fin 1) (link_lossRate link)
      then Inl (Runtime_Error ''invalid link parameters'')
      else Inr ())"

definition check_flow :: "Scenario \<Rightarrow> FlowInput \<Rightarrow> unit \<Rightarrow> unit result" where
  "check_flow scenario flow _ =
     (if length (sc_nodes scenario) \<le> unat (fl_source flow) \<or> length (sc_nodes scenario) \<le> unat (fl_target flow)
      then Inl (Runtime_Error ''flow references unknown node'')
      else if fl_packetSizeBytes flow < 64 \<or> fl_intervalMs flow = 0 \<or> fl_durationMs flow < 100
      then Inl (Runtime_Error ''invalid flow parameters'')
      else Inr ())"

definition ValidateScenario :: "Scenario \<Rightarrow> unit result" where
  "ValidateScenario scenario =
     (if length (sc_nodes scenario) \<noteq> unat (sc_expectedNodes scenario) \<or>
         length (sc_links scenario) \<noteq> unat (sc_expectedLinks scenario) \<or>
         length (sc_flows scenario) \<noteq> unat (sc_expectedFlows scenario)
      then Inl (Runtime_Error ''scenario record count mismatch'')
      else if \<not> indexes_contiguous (sc_nodes scenario) 0
      then Inl (Runtime_Error ''node indexes must be contiguous'')
      else
        rbind (rfold (check_link scenario) (sc_links scenario) ()) (\<lambda>_.
          rfold (check_flow scenario) (sc_flows scenario) ()))"

section \<open>Active paths\<close>

definition link_active :: "Scenario \<Rightarrow> LinkInput \<Rightarrow> bool" where
  "link_active scenario link \<longleftrightarrow>
     link_up link \<and> node_alive (sc_nodes scenario ! unat (link_source link)) \<and>
     node_alive (sc_nodes scenario ! unat (link_target link))"

definition add_link :: "Scenario \<Rightarrow> LinkInput \<Rightarrow> nat list list \<Rightarrow> nat list list" where
  "add_link scenario link adjacency =
     (if \<not> link_active scenario link then adjacency
      else
        (let s = unat (link_source link); t = unat (link_target link);
             adjacency = adjacency[s := adjacency ! s @ [t]] in
         adjacency[t := adjacency ! t @ [s]]))"

definition build_adjacency :: "Scenario \<Rightarrow> nat list list" where
  "build_adjacency scenario =
     fold (add_link scenario) (sc_links scenario) (replicate (length (sc_nodes scenario)) [])"

text \<open>
  The inner loop over the neighbours. The vector \<open>pending\<close> is used as a stack; its back is the
  head of the list here. Neighbours are indexes of nodes once the scenario has been validated.
\<close>

definition visit :: "nat \<Rightarrow> bool list \<times> nat list \<Rightarrow> bool list \<times> nat list" where
  "visit next = (\<lambda>(visited, pending).
     if next < length visited \<and> \<not> visited ! next then (visited[next := True], next # pending)
     else (visited, pending))"

definition unvisited :: "bool list \<Rightarrow> nat" where
  "unvisited visited = length (filter Not visited)"

lemma unvisited_update: "i < length v \<Longrightarrow> \<not> v ! i \<Longrightarrow> unvisited (v[i := True]) + 1 = unvisited v"
  by (induction v arbitrary: i) (auto simp: unvisited_def nth_Cons split: nat.splits)

lemma visit_measure:
  "fold visit ns (visited, pending) = (visited', pending') \<Longrightarrow>
    unvisited visited' + length pending' = unvisited visited + length pending"
proof (induction ns arbitrary: visited pending)
  case Nil
  then show ?case by simp
next
  case (Cons n ns)
  then show ?case
    using unvisited_update [of n visited] by (auto simp: visit_def split: if_splits)
qed

function search :: "nat list list \<Rightarrow> nat \<Rightarrow> bool list \<times> nat list \<Rightarrow> bool" where
  "search adjacency target (visited, []) = False"
| "search adjacency target (visited, node # pending) =
     (if node = target then True
      else search adjacency target (fold visit (adjacency ! node) (visited, pending)))"
  by pat_completeness auto
termination
proof (relation "measure (\<lambda>(adjacency, target, visited, pending). unvisited visited + length pending)")
  fix adjacency :: "nat list list" and target node :: nat and visited :: "bool list" and pending :: "nat list"
  obtain v p where "fold visit (adjacency ! node) (visited, pending) = (v, p)" by fastforce
  then show "((adjacency, target, fold visit (adjacency ! node) (visited, pending)),
      (adjacency, target, visited, node # pending))
    \<in> measure (\<lambda>(adjacency, target, visited, pending). unvisited visited + length pending)"
    using visit_measure [of "adjacency ! node" visited pending v p] by simp
qed simp

definition HasActivePath :: "Scenario \<Rightarrow> nat \<Rightarrow> nat \<Rightarrow> bool" where
  "HasActivePath scenario source target =
     (let n = length (sc_nodes scenario) in
      if n \<le> source \<or> n \<le> target \<or> \<not> node_alive (sc_nodes scenario ! source) \<or>
        \<not> node_alive (sc_nodes scenario ! target)
      then False
      else search (build_adjacency scenario) target ((replicate n False)[source := True], [source]))"

section \<open>Setting up and evaluating a run\<close>

record LinkInstall =
  li_source :: nat
  li_target :: nat
  li_dataRateBps :: u64
  li_delayMs :: double
  li_lossRate :: double
  li_subnet :: string

record Network =
  net_positions :: "(double \<times> double \<times> double) list"
  net_links :: "LinkInstall list"

record FlowInstall =
  fi_index :: u32
  fi_source :: nat
  fi_target :: nat
  fi_address :: u32
  fi_port :: u16
  fi_serverStopMs :: u32
  fi_maxPackets :: u32
  fi_intervalMs :: u32
  fi_packetSizeBytes :: u32
  fi_clientStopMs :: u32

text \<open>What the flow monitor reports for one flow; times are in seconds.\<close>

record FlowStats =
  st_destinationPort :: u16
  st_protocol :: u8
  st_txPackets :: u64
  st_rxPackets :: u64
  st_rxBytes :: u64
  st_delaySum :: double
  st_activeSeconds :: double

text \<open>
  ns-3: the addresses of a node's interfaces after the links are installed, and a simulation that
  stops at the given time. ns-3 keeps a state of its own from one run to the next (the indexes of its
  random streams, for instance), so the statistics of a simulation depend on that state and change
  it; and ns-3 may abort the process on a scenario it cannot install or run, which is
  \<^term>\<open>None\<close>.
\<close>

record 's Ns3 =
  ns3_interfaces :: "Network \<Rightarrow> nat \<Rightarrow> u32 list list"
  ns3_simulate :: "Network \<Rightarrow> FlowInstall list \<Rightarrow> double \<Rightarrow> 's \<Rightarrow> (FlowStats list \<times> 's) option"

text \<open>The first address of a node behind the loopback interface, zero if it has none.\<close>

definition FirstNodeAddress :: "u32 list list \<Rightarrow> u32" where
  "FirstNodeAddress interfaces =
     (case find (\<lambda>a. a \<noteq> 0 \<and> a \<noteq> 0x7F000001) (concat (drop 1 interfaces)) of
        Some a \<Rightarrow> a | None \<Rightarrow> 0)"

definition subnet_of :: "u32 \<Rightarrow> string" where
  "subnet_of index = ''10.'' @ show_nat (unat (1 + index div 256)) @ ''.'' @ show_nat (unat (index mod 256)) @ ''.0''"

definition install_network :: "Scenario \<Rightarrow> Network" where
  "install_network scenario =
     \<lparr>net_positions = map (\<lambda>n. (node_x n, node_y n, node_z n)) (sc_nodes scenario),
      net_links = map (\<lambda>l. \<lparr>li_source = unat (link_source l), li_target = unat (link_target l),
          li_dataRateBps = link_dataRateBps l, li_delayMs = link_delayMs l, li_lossRate = link_lossRate l,
          li_subnet = subnet_of (link_index l)\<rparr>)
        (filter (link_active scenario) (sc_links scenario))\<rparr>"

definition port_of :: "u32 \<Rightarrow> u16" where
  "port_of index = ucast (9000 + index mod 50000)"

type_synonym flow_setup = "(u16, u32) cmap \<times> FlowInstall list \<times> double"

text \<open>The body of the loop that installs the flows.\<close>

definition install_flow :: "'s Ns3 \<Rightarrow> Network \<Rightarrow> Scenario \<Rightarrow> FlowInput \<Rightarrow> flow_setup \<Rightarrow> flow_setup" where
  "install_flow ns3 network scenario flow = (\<lambda>(ports, installs, stopSeconds).
     (let source = unat (fl_source flow); target = unat (fl_target flow) in
      if \<not> fl_enabled flow \<or> \<not> node_alive (sc_nodes scenario ! source) \<or> \<not> node_alive (sc_nodes scenario ! target)
      then (ports, installs, stopSeconds)
      else
        (let address = FirstNodeAddress (ns3_interfaces ns3 network target) in
         if address = 0 then (ports, installs, stopSeconds)
         else
           (let port = port_of (fl_index flow) in
            (map_put port (fl_index flow) ports,
             installs @ [\<lparr>fi_index = fl_index flow, fi_source = source, fi_target = target,
               fi_address = address, fi_port = port,
               fi_serverStopMs = 100 + fl_durationMs flow + 200,
               fi_maxPackets = max 1 (fl_durationMs flow div fl_intervalMs flow),
               fi_intervalMs = fl_intervalMs flow, fi_packetSizeBytes = fl_packetSizeBytes flow,
               fi_clientStopMs = 100 + fl_durationMs flow\<rparr>],
             d_max stopSeconds
               (d_div (d_add (d_add (Fin 100) (d_of_nat (unat (fl_durationMs flow)))) (Fin 200)) (Fin 1000)))))))"

definition install_flows :: "'s Ns3 \<Rightarrow> Network \<Rightarrow> Scenario \<Rightarrow> flow_setup" where
  "install_flows ns3 network scenario =
     fold (install_flow ns3 network scenario) (sc_flows scenario) ([], [], fl (1 / 2))"

definition measure_flow :: "(u16, u32) cmap \<Rightarrow> FlowStats \<Rightarrow> (u32, FlowStats) cmap \<Rightarrow> (u32, FlowStats) cmap" where
  "measure_flow ports stats measured =
     (case map_find ports (st_destinationPort stats) of
        Some index \<Rightarrow> if st_protocol stats = 17 then map_put index stats measured else measured
      | None \<Rightarrow> measured)"

record FlowResult =
  res_latencyMs :: double
  res_lossRate :: double
  res_throughputBps :: double
  res_txPackets :: u64
  res_rxPackets :: u64

definition evaluate :: "FlowStats option \<Rightarrow> FlowResult" where
  "evaluate found =
     (case found of
        None \<Rightarrow> \<lparr>res_latencyMs = Fin 0, res_lossRate = Fin 1, res_throughputBps = Fin 0,
          res_txPackets = 0, res_rxPackets = 0\<rparr>
      | Some stats \<Rightarrow>
          (let tx = st_txPackets stats; rx = st_rxPackets stats in
           \<lparr>res_latencyMs = (if 0 < rx then d_div (d_mul (st_delaySum stats) (Fin 1000)) (d_of_nat (unat rx)) else Fin 0),
            res_lossRate = (if 0 < tx then d_div (d_of_nat (unat (tx - rx))) (d_of_nat (unat tx)) else Fin 1),
            res_throughputBps =
              (if 0 < rx \<and> d_lt (Fin 0) (st_activeSeconds stats)
               then d_div (d_mul (d_of_nat (unat (st_rxBytes stats))) (Fin 8)) (st_activeSeconds stats) else Fin 0),
            res_txPackets = tx, res_rxPackets = rx\<rparr>))"

definition result_line :: "Scenario \<Rightarrow> (u32, FlowStats) cmap \<Rightarrow> FlowInput \<Rightarrow> string" where
  "result_line scenario measured flow =
     (let connected = fl_enabled flow \<and> HasActivePath scenario (unat (fl_source flow)) (unat (fl_target flow));
          r = evaluate (map_find measured (fl_index flow)) in
      ''RESULT'' @ [tab] @ show_nat (unat (fl_index flow)) @ [tab]
      @ (if connected then ''1'' else ''0'') @ [tab] @ show_fixed 6 (res_latencyMs r) @ [tab]
      @ show_fixed 6 (res_lossRate r) @ [tab] @ show_fixed 6 (res_throughputBps r) @ [tab]
      @ show_nat (unat (res_txPackets r)) @ [tab] @ show_nat (unat (res_rxPackets r)) @ [tab]
      @ (if connected then ''UP'' else ''DOWN'') @ [newline])"

text \<open>The output or the exception, with the state of ns-3; \<^term>\<open>None\<close> when ns-3 aborts the process.\<close>

definition RunScenario :: "'s Ns3 \<Rightarrow> Scenario \<Rightarrow> 's \<Rightarrow> (string result \<times> 's) option" where
  "RunScenario ns3 scenario world =
     (case ValidateScenario scenario of
        Inl e \<Rightarrow> Some (Inl e, world)
      | Inr _ \<Rightarrow>
          (let network = install_network scenario;
               (ports, installs, stopSeconds) = install_flows ns3 network scenario in
           case ns3_simulate ns3 network installs stopSeconds world of
             None \<Rightarrow> None
           | Some (stats, world) \<Rightarrow>
               (let measured = fold (measure_flow ports) stats [] in
                Some (Inr (concat (map (result_line scenario measured) (sc_flows scenario))
                  @ ''DONE'' @ [tab] @ sc_id scenario @ [newline]), world))))"

section \<open>The command loop\<close>

text \<open>\<open>error.what()\<close>; the texts of the library's own exceptions are their names here.\<close>

definition error_text :: "exn \<Rightarrow> string" where
  "error_text e = (case e of Runtime_Error s \<Rightarrow> s | Invalid_Argument s \<Rightarrow> s | Out_Of_Range s \<Rightarrow> s
     | Unknown_Exception \<Rightarrow> [])"

definition read_node :: "string list \<Rightarrow> NodeInput result" where
  "read_node parts =
     rbind (ToUint32 (parts ! 1)) (\<lambda>index. rbind (ToDouble (parts ! 2)) (\<lambda>x.
     rbind (ToDouble (parts ! 3)) (\<lambda>y. rbind (ToDouble (parts ! 4)) (\<lambda>z.
     rbind (ToBool (parts ! 5)) (\<lambda>alive.
       Inr \<lparr>node_index = index, node_x = x, node_y = y, node_z = z, node_alive = alive\<rparr>)))))"

definition read_link_line :: "string list \<Rightarrow> LinkInput result" where
  "read_link_line parts =
     rbind (ToUint32 (parts ! 1)) (\<lambda>index. rbind (ToUint32 (parts ! 2)) (\<lambda>source.
     rbind (ToUint32 (parts ! 3)) (\<lambda>target. rbind (ToUint64 (parts ! 4)) (\<lambda>rate.
     rbind (ToDouble (parts ! 5)) (\<lambda>delay. rbind (ToDouble (parts ! 6)) (\<lambda>loss.
     rbind (ToBool (parts ! 7)) (\<lambda>up.
       Inr \<lparr>link_index = index, link_source = source, link_target = target, link_dataRateBps = rate,
         link_delayMs = delay, link_lossRate = loss, link_up = up\<rparr>)))))))"

definition read_flow_line :: "string list \<Rightarrow> FlowInput result" where
  "read_flow_line parts =
     rbind (ToUint32 (parts ! 1)) (\<lambda>index. rbind (ToUint32 (parts ! 2)) (\<lambda>source.
     rbind (ToUint32 (parts ! 3)) (\<lambda>target. rbind (ToUint32 (parts ! 4)) (\<lambda>size.
     rbind (ToUint32 (parts ! 5)) (\<lambda>interval. rbind (ToUint32 (parts ! 6)) (\<lambda>duration.
     rbind (ToBool (parts ! 7)) (\<lambda>enabled.
       Inr \<lparr>fl_index = index, fl_source = source, fl_target = target, fl_packetSizeBytes = size,
         fl_intervalMs = interval, fl_durationMs = duration, fl_enabled = enabled\<rparr>)))))))"

definition read_scenario_line :: "string list \<Rightarrow> Scenario result" where
  "read_scenario_line parts =
     rbind (ToUint32 (parts ! 2)) (\<lambda>nodes. rbind (ToUint32 (parts ! 3)) (\<lambda>links.
     rbind (ToUint32 (parts ! 4)) (\<lambda>flows.
       Inr (empty_scenario\<lparr>sc_id := parts ! 1, sc_expectedNodes := nodes, sc_expectedLinks := links,
         sc_expectedFlows := flows\<rparr>))))"

text \<open>
  The body of the \<open>try\<close> block: the output and the next scenario, or the exception, and the state of
  ns-3.
\<close>

definition run_command ::
  "'s Ns3 \<Rightarrow> string list \<Rightarrow> Scenario \<Rightarrow> 's \<Rightarrow> ((string \<times> Scenario) result \<times> 's) option" where
  "run_command ns3 parts scenario world =
     (if parts = [] then Some (Inr ([], scenario), world)
      else if hd parts = ''SCENARIO'' then
        Some (if length parts \<noteq> 5 then Inl (Runtime_Error ''invalid SCENARIO line'')
          else rbind (read_scenario_line parts) (\<lambda>s. Inr ([], s)), world)
      else if hd parts = ''NODE'' then
        Some (if length parts \<noteq> 6 then Inl (Runtime_Error ''invalid NODE line'')
          else rbind (read_node parts) (\<lambda>n. Inr ([], scenario\<lparr>sc_nodes := sc_nodes scenario @ [n]\<rparr>)), world)
      else if hd parts = ''LINK'' then
        Some (if length parts \<noteq> 8 then Inl (Runtime_Error ''invalid LINK line'')
          else rbind (read_link_line parts) (\<lambda>l. Inr ([], scenario\<lparr>sc_links := sc_links scenario @ [l]\<rparr>)), world)
      else if hd parts = ''FLOW'' then
        Some (if length parts \<noteq> 8 then Inl (Runtime_Error ''invalid FLOW line'')
          else rbind (read_flow_line parts) (\<lambda>f. Inr ([], scenario\<lparr>sc_flows := sc_flows scenario @ [f]\<rparr>)), world)
      else if hd parts = ''RUN'' then
        map_option (\<lambda>(r, world). (rbind r (\<lambda>out. Inr (out, scenario)), world)) (RunScenario ns3 scenario world)
      else Some (Inl (Runtime_Error ''unknown runner command''), world))"

text \<open>
  One line of input: the output, the next scenario and the state of ns-3, or nothing when the program
  ends, at \<open>QUIT\<close> or because ns-3 aborts it.
\<close>

definition runner_step :: "'s Ns3 \<Rightarrow> string \<Rightarrow> Scenario \<times> 's \<Rightarrow> (string \<times> Scenario \<times> 's) option" where
  "runner_step ns3 line = (\<lambda>(scenario, world).
     (if line = [] then Some ([], scenario, world)
      else if line = ''QUIT'' then None
      else
        (case run_command ns3 (SplitTabs line) scenario world of
           None \<Rightarrow> None
         | Some (Inr (out, scenario), world) \<Rightarrow> Some (out, scenario, world)
         | Some (Inl e, world) \<Rightarrow> Some (''ERROR'' @ [tab] @ error_text e @ [newline], empty_scenario, world))))"

fun runner_main :: "'s Ns3 \<Rightarrow> string list \<Rightarrow> Scenario \<times> 's \<Rightarrow> string" where
  "runner_main ns3 [] state = []"
| "runner_main ns3 (line # lines) state =
     (case runner_step ns3 line state of
        None \<Rightarrow> []
      | Some (out, state') \<Rightarrow> out @ runner_main ns3 lines state')"

end
