(* ===== verification/RunnerFacts.thy ===== *)
theory RunnerFacts
  imports Runner DecimalText Protocol
begin

text \<open>
  What the runner of \<open>afsim-ns3-runner.cc\<close> guarantees: the search for an active path is
  reachability, validation accepts what it should (and the values that are not numbers), result
  lines have their nine fields, and a bad line ends only the scenario it belongs to.
\<close>

section \<open>Active paths are reachability\<close>

definition edges :: "Scenario \<Rightarrow> (nat \<times> nat) set" where
  "edges scenario = {(i, j). \<exists>l \<in> set (sc_links scenario). link_active scenario l \<and>
     (i = unat (link_source l) \<and> j = unat (link_target l) \<or> i = unat (link_target l) \<and> j = unat (link_source l))}"

definition links_in_range :: "Scenario \<Rightarrow> bool" where
  "links_in_range scenario \<longleftrightarrow> list_all (\<lambda>l. unat (link_source l) < length (sc_nodes scenario) \<and>
     unat (link_target l) < length (sc_nodes scenario)) (sc_links scenario)"

lemma length_add_link [simp]: "length (add_link scenario l adjacency) = length adjacency"
  by (simp add: add_link_def Let_def)

lemma add_link_neighbours:
  assumes "unat (link_source l) < length adjacency" and "unat (link_target l) < length adjacency"
    and "i < length adjacency"
  shows "set (add_link scenario l adjacency ! i) = set (adjacency ! i) \<union>
    {j. link_active scenario l \<and> (i = unat (link_source l) \<and> j = unat (link_target l) \<or>
      i = unat (link_target l) \<and> j = unat (link_source l))}"
  using assms by (auto simp: add_link_def Let_def nth_list_update)

lemma fold_add_link_neighbours:
  assumes "list_all (\<lambda>l. unat (link_source l) < length adjacency \<and> unat (link_target l) < length adjacency) links"
    and "i < length adjacency"
  shows "length (fold (add_link scenario) links adjacency) = length adjacency \<and>
    set (fold (add_link scenario) links adjacency ! i) = set (adjacency ! i) \<union>
      {j. \<exists>l \<in> set links. link_active scenario l \<and>
        (i = unat (link_source l) \<and> j = unat (link_target l) \<or> i = unat (link_target l) \<and> j = unat (link_source l))}"
  using assms
proof (induction links arbitrary: adjacency)
  case Nil
  then show ?case by simp
next
  case (Cons l links)
  then show ?case using Cons.IH [of "add_link scenario l adjacency"] add_link_neighbours [of l adjacency i scenario]
    by auto
qed

lemma build_adjacency_edges:
  assumes "links_in_range scenario" and "i < length (sc_nodes scenario)"
  shows "j \<in> set (build_adjacency scenario ! i) \<longleftrightarrow> (i, j) \<in> edges scenario"
  using fold_add_link_neighbours [of "replicate (length (sc_nodes scenario)) []" "sc_links scenario" i scenario] assms
  by (simp add: build_adjacency_def links_in_range_def edges_def)

lemma edges_in_range:
  "links_in_range scenario \<Longrightarrow> (i, j) \<in> edges scenario \<Longrightarrow>
    i < length (sc_nodes scenario) \<and> j < length (sc_nodes scenario)"
  by (auto simp: links_in_range_def edges_def list_all_iff)

definition marked :: "bool list \<Rightarrow> nat set" where
  "marked visited = {i. i < length visited \<and> visited ! i}"

lemma marked_update: "i < length v \<Longrightarrow> marked (v[i := True]) = insert i (marked v)"
  by (auto simp: marked_def nth_list_update)

lemma visit_apply:
  "visit n (v, p) = (if n < length v \<and> \<not> v ! n then (v[n := True], n # p) else (v, p))"
  by (simp add: visit_def)

lemma fold_visit:
  "fold visit ns (v, p) = (v', p') \<Longrightarrow> length v' = length v \<and>
    marked v' = marked v \<union> (set ns \<inter> {..<length v}) \<and> set p' = set p \<union> ((set ns \<inter> {..<length v}) - marked v)"
proof (induction ns arbitrary: v p)
  case Nil
  then show ?case by simp
next
  case (Cons n ns)
  show ?case
  proof (cases "n < length v \<and> \<not> v ! n")
    case True
    then have "fold visit ns (v[n := True], n # p) = (v', p')" using Cons.prems by (simp add: visit_apply)
    note ih = Cons.IH [OF this]
    have m: "marked (v[n := True]) = insert n (marked v)" "n \<notin> marked v" "n < length v"
      using True by (simp_all add: marked_update) (simp add: marked_def)
    from ih m(2,3) show ?thesis unfolding m(1) by auto
  next
    case False
    then have "visit n (v, p) = (v, p)" by (auto simp: visit_apply)
    then have "fold visit ns (v, p) = (v', p')" using Cons.prems by simp
    note ih = Cons.IH [OF this]
    have "n \<in> marked v \<or> \<not> n < length v" using False by (auto simp: marked_def)
    with ih show ?thesis by auto
  qed
qed

lemma search_reachable:
  assumes "\<And>i j. i < length visited \<Longrightarrow> j \<in> set (adjacency ! i) \<longleftrightarrow> (i, j) \<in> E"
    and "\<And>i j. (i, j) \<in> E \<Longrightarrow> i < length visited \<and> j < length visited"
    and "set pending \<subseteq> marked visited"
    and "\<And>i j. i \<in> marked visited - set pending \<Longrightarrow> i \<noteq> target \<and> ((i, j) \<in> E \<longrightarrow> j \<in> marked visited)"
  shows "search adjacency target (visited, pending) \<longleftrightarrow> (\<exists>i \<in> marked visited. (i, target) \<in> E\<^sup>*)"
  using assms
proof (induction "unvisited visited + length pending" arbitrary: visited pending rule: less_induct)
  case less
  show ?case
  proof (cases pending)
    case Nil
    have "j \<in> marked visited" if "(i, j) \<in> E\<^sup>*" "i \<in> marked visited" for i j
      using that by (induction rule: rtrancl_induct) (use less.prems(4) Nil in auto)
    then show ?thesis using less.prems(4) Nil by auto
  next
    case (Cons node rest)
    show ?thesis
    proof (cases "node = target")
      case True
      then show ?thesis using less.prems(3) Cons by auto
    next
      case False
      obtain v' p' where f: "fold visit (adjacency ! node) (visited, rest) = (v', p')" by fastforce
      have node: "node < length visited" "node \<in> marked visited"
        using less.prems(3) Cons by (auto simp: marked_def)
      have succ: "set (adjacency ! node) \<inter> {..<length visited} = {j. (node, j) \<in> E}"
        using less.prems(1) [OF node(1)] less.prems(2) by auto
      note v = fold_visit [OF f, unfolded succ]
      have "search adjacency target (v', p') \<longleftrightarrow> (\<exists>i \<in> marked v'. (i, target) \<in> E\<^sup>*)"
      proof (rule less.hyps)
        show "unvisited v' + length p' < unvisited visited + length pending"
          using visit_measure [OF f] Cons by simp
        show "j \<in> set (adjacency ! i) \<longleftrightarrow> (i, j) \<in> E" if "i < length v'" for i j
          using that less.prems(1) v by simp
        show "i < length v' \<and> j < length v'" if "(i, j) \<in> E" for i j
          using that less.prems(2) v by simp
        show "set p' \<subseteq> marked v'" using v less.prems(3) Cons by auto
        fix i j
        assume i: "i \<in> marked v' - set p'"
        then have "i \<in> marked visited" "i \<notin> set rest" using v by auto
        then show "i \<noteq> target \<and> ((i, j) \<in> E \<longrightarrow> j \<in> marked v')"
          using less.prems(4) [of i j] False v Cons by (cases "i = node") auto
      qed
      moreover have "(\<exists>i \<in> marked v'. (i, target) \<in> E\<^sup>*) \<longleftrightarrow> (\<exists>i \<in> marked visited. (i, target) \<in> E\<^sup>*)"
        using v node(2) by (auto intro: converse_rtrancl_into_rtrancl)
      ultimately show ?thesis using False Cons f by simp
    qed
  qed
qed

lemma HasActivePath_iff:
  assumes "links_in_range scenario"
  shows "HasActivePath scenario s t \<longleftrightarrow>
    s < length (sc_nodes scenario) \<and> t < length (sc_nodes scenario) \<and>
    node_alive (sc_nodes scenario ! s) \<and> node_alive (sc_nodes scenario ! t) \<and> (s, t) \<in> (edges scenario)\<^sup>*"
proof (cases "s < length (sc_nodes scenario)")
  case True
  let ?v = "(replicate (length (sc_nodes scenario)) False)[s := True]"
  have m: "marked ?v = {s}" using True by (auto simp: marked_def nth_list_update split: if_splits)
  have "search (build_adjacency scenario) t (?v, [s]) \<longleftrightarrow> (\<exists>i \<in> marked ?v. (i, t) \<in> (edges scenario)\<^sup>*)"
    using build_adjacency_edges [OF assms] edges_in_range [OF assms] m
    by (intro search_reachable) auto
  then show ?thesis using True m by (auto simp: HasActivePath_def Let_def)
next
  case False
  then show ?thesis by (simp add: HasActivePath_def Let_def)
qed

section \<open>Validation\<close>

lemma rfold_unit: "rfold f xs () = Inr () \<longleftrightarrow> (\<forall>x \<in> set xs. f x () = Inr ())"
  by (induction xs) (auto simp: rbind_eq_Inr)

lemma indexes_contiguous_iff:
  "indexes_contiguous ns k \<longleftrightarrow> (\<forall>i < length ns. unat (node_index (ns ! i)) = k + i)"
proof (induction ns arbitrary: k)
  case Nil
  then show ?case by simp
next
  case (Cons n ns)
  then show ?case by (auto simp: nth_Cons All_less_Suc2 split: nat.splits)
qed

definition valid_link :: "Scenario \<Rightarrow> LinkInput \<Rightarrow> bool" where
  "valid_link scenario l \<longleftrightarrow>
     unat (link_source l) < length (sc_nodes scenario) \<and> unat (link_target l) < length (sc_nodes scenario) \<and>
     link_dataRateBps l \<noteq> 0 \<and>
     (link_delayMs l = NaN \<or> link_delayMs l = PInf \<or> isfinite (link_delayMs l) \<and> 0 \<le> dval (link_delayMs l)) \<and>
     (link_lossRate l = NaN \<or> isfinite (link_lossRate l) \<and> 0 \<le> dval (link_lossRate l) \<and> dval (link_lossRate l) \<le> 1)"

definition valid_flow :: "Scenario \<Rightarrow> FlowInput \<Rightarrow> bool" where
  "valid_flow scenario f \<longleftrightarrow>
     unat (fl_source f) < length (sc_nodes scenario) \<and> unat (fl_target f) < length (sc_nodes scenario) \<and>
     64 \<le> fl_packetSizeBytes f \<and> fl_intervalMs f \<noteq> 0 \<and> 100 \<le> fl_durationMs f"

lemma check_link_iff: "check_link scenario l () = Inr () \<longleftrightarrow> valid_link scenario l"
  by (cases "link_delayMs l"; cases "link_lossRate l") (auto simp: check_link_def valid_link_def not_le)

lemma check_flow_iff: "check_flow scenario f () = Inr () \<longleftrightarrow> valid_flow scenario f"
  by (auto simp: check_flow_def valid_flow_def not_le not_less)

lemma ValidateScenario_iff:
  "ValidateScenario scenario = Inr () \<longleftrightarrow>
    length (sc_nodes scenario) = unat (sc_expectedNodes scenario) \<and>
    length (sc_links scenario) = unat (sc_expectedLinks scenario) \<and>
    length (sc_flows scenario) = unat (sc_expectedFlows scenario) \<and>
    (\<forall>i < length (sc_nodes scenario). unat (node_index (sc_nodes scenario ! i)) = i) \<and>
    list_all (valid_link scenario) (sc_links scenario) \<and> list_all (valid_flow scenario) (sc_flows scenario)"
  by (auto simp: ValidateScenario_def indexes_contiguous_iff rbind_eq_Inr rfold_unit check_link_iff
      check_flow_iff list_all_iff)

lemma valid_links_in_range: "ValidateScenario scenario = Inr () \<Longrightarrow> links_in_range scenario"
  by (auto simp: ValidateScenario_iff links_in_range_def list_all_iff valid_link_def)

text \<open>
  C34. Validation accepts a scenario exactly when the counts match, the nodes are numbered in
  order, and every link and flow names existing nodes and has parameters in range; a delay or
  loss rate that is NaN, and an infinite delay, are accepted as well.
\<close>

theorem validation_exact:
  "ValidateScenario scenario = Inr () \<longleftrightarrow>
    length (sc_nodes scenario) = unat (sc_expectedNodes scenario) \<and>
    length (sc_links scenario) = unat (sc_expectedLinks scenario) \<and>
    length (sc_flows scenario) = unat (sc_expectedFlows scenario) \<and>
    (\<forall>i \<in> {..<length (sc_nodes scenario)}. unat (node_index (sc_nodes scenario ! i)) = i) \<and>
    list_all (valid_link scenario) (sc_links scenario) \<and> list_all (valid_flow scenario) (sc_flows scenario)"
  unfolding ValidateScenario_iff by auto

text \<open>A scenario of two nodes and a link whose loss rate is NaN.\<close>

definition nan_scenario :: Scenario where
  "nan_scenario = empty_scenario\<lparr>sc_expectedNodes := 2, sc_expectedLinks := 1,
     sc_nodes := [\<lparr>node_index = 0, node_x = Fin 0, node_y = Fin 0, node_z = Fin 0, node_alive = True\<rparr>,
       \<lparr>node_index = 1, node_x = Fin 0, node_y = Fin 0, node_z = Fin 0, node_alive = True\<rparr>],
     sc_links := [\<lparr>link_index = 0, link_source = 0, link_target = 1, link_dataRateBps = 1000,
       link_delayMs = Fin 1, link_lossRate = NaN, link_up = True\<rparr>]\<rparr>"

theorem validation_exact_witness: "ValidateScenario nan_scenario = Inr ()"
  unfolding validation_exact
  by (simp add: nan_scenario_def empty_scenario_def valid_link_def lessThan_Suc)

text \<open>
  C33. For a validated scenario the search finds a path exactly when both nodes are alive and one
  can be reached from the other over links that are up and whose ends are alive, in either
  direction. The search always ends.
\<close>

theorem path_is_reachability:
  assumes "ValidateScenario scenario = Inr ()"
  shows "HasActivePath scenario s t \<longleftrightarrow>
    s < length (sc_nodes scenario) \<and> t < length (sc_nodes scenario) \<and>
    node_alive (sc_nodes scenario ! s) \<and> node_alive (sc_nodes scenario ! t) \<and> (s, t) \<in> (edges scenario)\<^sup>*"
  by (rule HasActivePath_iff [OF valid_links_in_range [OF assms]])

theorem path_is_reachability_witness: "HasActivePath nan_scenario 1 0"
proof -
  have "ValidateScenario nan_scenario = Inr ()"
    unfolding ValidateScenario_iff
    by (auto simp: nan_scenario_def empty_scenario_def valid_link_def less_Suc_eq)
  moreover have "(1, 0) \<in> edges nan_scenario"
    by (simp add: edges_def nan_scenario_def empty_scenario_def link_active_def)
  ultimately show ?thesis
    using path_is_reachability [of nan_scenario 1 0]
    by (auto simp: nan_scenario_def empty_scenario_def)
qed

section \<open>Ports and times\<close>

lemma unat_port: "unat (port_of index) = 9000 + unat index mod 50000"
proof -
  have "unat index mod 50000 < 50000" by simp
  then have "unat (9000 + index mod 50000) = 9000 + unat index mod 50000"
    by (simp add: unat_word_ariths unat_mod)
  then show ?thesis by (simp add: port_of_def unsigned_ucast_eq take_bit_eq_mod)
qed

lemma fold_install_flow:
  assumes "fold (install_flow ns3 network scenario) flows (ports, installs, stop) = (ports', installs', stop')"
    and "i \<in> set installs'"
  shows "i \<in> set installs \<or> (\<exists>f \<in> set flows. fi_index i = fl_index f \<and> fi_port i = port_of (fl_index f) \<and>
    fi_serverStopMs i = 100 + fl_durationMs f + 200 \<and> fi_maxPackets i = max 1 (fl_durationMs f div fl_intervalMs f))"
  using assms
proof (induction flows arbitrary: ports installs stop)
  case Nil
  then show ?case by simp
next
  case (Cons f flows)
  obtain a b c where step: "install_flow ns3 network scenario f (ports, installs, stop) = (a, b, c)"
    by (metis prod_cases3)
  then have b: "set b \<subseteq> set installs \<union> {i. fi_index i = fl_index f \<and> fi_port i = port_of (fl_index f) \<and>
      fi_serverStopMs i = 100 + fl_durationMs f + 200 \<and> fi_maxPackets i = max 1 (fl_durationMs f div fl_intervalMs f)}"
    by (auto simp: install_flow_def Let_def split: if_splits)
  from Cons.prems step have "fold (install_flow ns3 network scenario) flows (a, b, c) = (ports', installs', stop')"
    by simp
  from Cons.IH [OF this Cons.prems(2)] b show ?case by auto
qed

text \<open>
  C35. Every installed flow comes from a flow of the scenario, uses the UDP port 9000 plus its
  index modulo 50000 (so two flows share a port only when their indexes are congruent), sends
  at least one packet, and has its server stopped after its duration plus 300 milliseconds
  modulo \<open>2 ^ 32\<close>: the time wraps around for a duration within 300 of the largest.
\<close>

theorem installed_flows:
  assumes "install_flows ns3 network scenario = (ports, installs, stop)" and "i \<in> set installs"
  shows "\<exists>f \<in> set (sc_flows scenario). fi_index i = fl_index f \<and>
    unat (fi_port i) = 9000 + unat (fl_index f) mod 50000 \<and> 1 \<le> fi_maxPackets i \<and>
    unat (fi_serverStopMs i) = (unat (fl_durationMs f) + 300) mod 2 ^ 32"
proof -
  have wrap: "unat (100 + d + 200) = (unat d + 300) mod 2 ^ 32" for d :: u32
  proof -
    have "100 + d + 200 = d + 300" by simp
    then have "unat (100 + d + 200) = (300 + unat d) mod 2 ^ 32" by (simp add: unat_word_ariths)
    then show ?thesis by (simp only: add.commute)
  qed
  from fold_install_flow [OF assms [unfolded install_flows_def]]
  obtain f where f: "f \<in> set (sc_flows scenario)" "fi_index i = fl_index f" "fi_port i = port_of (fl_index f)"
    "fi_serverStopMs i = 100 + fl_durationMs f + 200" "fi_maxPackets i = max 1 (fl_durationMs f div fl_intervalMs f)"
    by auto
  have "1 \<le> max 1 k" for k :: u32 by (rule max.cobounded1)
  then show ?thesis
    by (intro bexI [OF _ f(1)]) (simp only: f(2-5) wrap unat_port simp_thms)
qed

text \<open>A scenario whose flow lasts as long as the format allows, and an ns-3 that numbers nodes.\<close>

definition long_flow :: FlowInput where
  "long_flow = \<lparr>fl_index = 50001, fl_source = 0, fl_target = 1, fl_packetSizeBytes = 64,
     fl_intervalMs = 1000, fl_durationMs = 0xFFFFFFFF, fl_enabled = True\<rparr>"

definition sample_ns3 :: "nat Ns3" where
  "sample_ns3 = \<lparr>ns3_interfaces = \<lambda>network node. [[0x7F000001], [0x0A010001 + of_nat node]],
     ns3_simulate = \<lambda>network flows stop runs. Some ([], runs + 1)\<rparr>"

theorem installed_flows_witness:
  "\<exists>ports i stop. install_flows sample_ns3 (install_network nan_scenario) (nan_scenario\<lparr>sc_flows := [long_flow]\<rparr>) = (ports, [i], stop) \<and>
    unat (fi_port i) = 9001 \<and> unat (fi_serverStopMs i) = 299"
proof -
  obtain ports i stop where inst:
    "install_flows sample_ns3 (install_network nan_scenario) (nan_scenario\<lparr>sc_flows := [long_flow]\<rparr>) = (ports, [i], stop)"
    by (simp add: install_flows_def install_flow_def sample_ns3_def nan_scenario_def long_flow_def
        FirstNodeAddress_def empty_scenario_def Let_def)
  have "i \<in> set [i]" by simp
  from installed_flows [OF inst this] inst show ?thesis by (auto simp: long_flow_def)
qed

section \<open>Measured loss\<close>

text \<open>
  C36. When no more packets were received than sent, the reported loss rate is a finite number
  between 0 and 1, and 1 when nothing was measured or sent.
\<close>

theorem measured_loss_range:
  assumes "\<And>stats. found = Some stats \<Longrightarrow> st_rxPackets stats \<le> st_txPackets stats"
  shows "isfinite (res_lossRate (evaluate found)) \<and> 0 \<le> dval (res_lossRate (evaluate found)) \<and>
    dval (res_lossRate (evaluate found)) \<le> 1 \<and>
    (found = None \<longrightarrow> res_lossRate (evaluate found) = Fin 1)"
proof (cases found)
  case None
  then show ?thesis by (simp add: evaluate_def)
next
  case (Some stats)
  let ?tx = "st_txPackets stats" and ?rx = "st_rxPackets stats"
  show ?thesis
  proof (cases "0 < ?tx")
    case False
    then show ?thesis using Some by (simp add: evaluate_def Let_def)
  next
    case True
    let ?a = "rnd (of_nat (unat (?tx - ?rx)))" and ?b = "rnd (of_nat (unat ?tx))"
    have le: "unat (?tx - ?rx) \<le> unat ?tx"
      using assms [OF Some] by (simp add: unat_sub)
    have lt: "unat w < 2 ^ 64" for w :: u64 using unsigned_less [of w, where ?'a = nat] by simp
    note a = d_of_nat_word [OF lt [of "?tx - ?rx"]] and b = d_of_nat_word [OF lt [of ?tx]]
    have "?a \<le> ?b" by (rule rnd_mono) (rule of_nat_0_le_iff, rule of_nat_mono, rule le)
    have "1 \<le> unat ?tx" using True by (simp add: word_less_nat_alt)
    then have "(1 :: rat) \<le> of_nat (unat ?tx)" by (metis of_nat_1 of_nat_mono)
    moreover have one: "representable 1" using representableI [of 1 0] by simp
    ultimately have "1 \<le> ?b" by (intro rnd_ge_representable)
    with \<open>?a \<le> ?b\<close> a(2) have q: "0 \<le> ?a / ?b" "?a / ?b \<le> 1" by simp_all
    have "isfinite (d_div (Fin ?a) (Fin ?b)) \<and> 0 \<le> dval (d_div (Fin ?a) (Fin ?b)) \<and> dval (d_div (Fin ?a) (Fin ?b)) \<le> 1"
      using fl_bounded [OF q one] \<open>1 \<le> ?b\<close> a(2) by (auto simp: signed_zero_def)
    then show ?thesis using Some True a(1) b(1) by (simp add: evaluate_def Let_def)
  qed
qed

definition sample_stats :: FlowStats where
  "sample_stats = \<lparr>st_destinationPort = 9000, st_protocol = 17, st_txPackets = 3, st_rxPackets = 1,
     st_rxBytes = 64, st_delaySum = Fin 1, st_activeSeconds = Fin 2\<rparr>"

theorem measured_loss_range_witness:
  "0 \<le> dval (res_lossRate (evaluate (Some sample_stats))) \<and> dval (res_lossRate (evaluate (Some sample_stats))) \<le> 1"
proof -
  have "st_rxPackets stats \<le> st_txPackets stats" if "Some sample_stats = Some stats" for stats
    using that by (auto simp: sample_stats_def)
  from measured_loss_range [of "Some sample_stats", OF this] show ?thesis by blast
qed

end
