(* ===== verification/RunnerSession.thy ===== *)
theory RunnerSession
  imports RunnerFacts
begin

text \<open>
  The runner of \<open>afsim-ns3-runner.cc\<close> over its whole input: the lines of a scenario are read back
  as the scenario, whatever was read before, and running it answers for it alone.
\<close>

section \<open>Lines of fields\<close>

fun tabbed :: "string list \<Rightarrow> string" where
  "tabbed [] = []"
| "tabbed [p] = p"
| "tabbed (p # q # ps) = p @ tab # tabbed (q # ps)"

lemma SplitTabs_Nil: "SplitTabs [] = []"
  by (simp add: SplitTabs.simps)

lemma SplitTabs_last: "tab \<notin> set p \<Longrightarrow> p \<noteq> [] \<Longrightarrow> SplitTabs p = [p]"
proof -
  assume p: "tab \<notin> set p" "p \<noteq> []"
  from p(1) have "takeWhile (\<lambda>c. c \<noteq> tab) p = p" "dropWhile (\<lambda>c. c \<noteq> tab) p = []"
    by (induction p) auto
  note parts = this
  have "SplitTabs p = takeWhile (\<lambda>c. c \<noteq> tab) p # SplitTabs (drop 1 (dropWhile (\<lambda>c. c \<noteq> tab) p))"
    using p(2) by (simp only: SplitTabs.simps [of p] if_False)
  then show ?thesis by (simp only: parts drop_Nil SplitTabs_Nil)
qed

lemma SplitTabs_part: "tab \<notin> set p \<Longrightarrow> SplitTabs (p @ tab # rest) = p # SplitTabs rest"
proof -
  assume p: "tab \<notin> set p"
  then have "takeWhile (\<lambda>c. c \<noteq> tab) (p @ tab # rest) = p" "dropWhile (\<lambda>c. c \<noteq> tab) (p @ tab # rest) = tab # rest"
    by (induction p) auto
  then show ?thesis by (simp add: SplitTabs.simps [of "p @ tab # rest"])
qed

definition clean_fields :: "string list \<Rightarrow> bool" where
  "clean_fields ps \<longleftrightarrow> ps \<noteq> [] \<and> list_all (\<lambda>p. tab \<notin> set p) ps \<and> last ps \<noteq> []"

lemma SplitTabs_tabbed: "clean_fields ps \<Longrightarrow> SplitTabs (tabbed ps) = ps"
  by (induction ps rule: tabbed.induct) (auto simp: clean_fields_def SplitTabs_part SplitTabs_last)

lemma tabbed_nonempty: "clean_fields ps \<Longrightarrow> tabbed ps \<noteq> []"
  by (cases ps rule: tabbed.cases) (auto simp: clean_fields_def)

lemma tabbed_QUIT:
  assumes "clean_fields ps" and "hd ps \<noteq> ''QUIT''"
  shows "tabbed ps \<noteq> ''QUIT''"
proof
  assume "tabbed ps = ''QUIT''"
  then have "ps = [''QUIT'']"
    using SplitTabs_tabbed [OF assms(1)] SplitTabs_last [of "''QUIT''"] by simp
  then show False using assms(2) by simp
qed

section \<open>The texts of the fields\<close>

text \<open>
  What a field has to look like, independently of how the program reads it. A double is any
  text that \<open>std::stod\<close> reads as it.
\<close>

definition decimal_text :: "string \<Rightarrow> nat \<Rightarrow> bool" where
  "decimal_text s n \<longleftrightarrow> s \<noteq> [] \<and> all_digits s \<and> digits_value 10 s = n"

definition double_text :: "string \<Rightarrow> double \<Rightarrow> bool" where
  "double_text s x \<longleftrightarrow> tab \<notin> set s \<and> (\<exists>consumed. stod s = Inr (x, consumed))"

definition flag_text :: "bool \<Rightarrow> string" where
  "flag_text b = (if b then ''1'' else ''0'')"

text \<open>The fields of the lines of a scenario, by their position.\<close>

definition header_fields :: "string list \<Rightarrow> Scenario \<Rightarrow> bool" where
  "header_fields ps sc \<longleftrightarrow> (\<exists>nodes links flows. ps = [''SCENARIO'', sc_id sc, nodes, links, flows] \<and>
     tab \<notin> set (sc_id sc) \<and> decimal_text nodes (unat (sc_expectedNodes sc)) \<and>
     decimal_text links (unat (sc_expectedLinks sc)) \<and> decimal_text flows (unat (sc_expectedFlows sc)))"

definition node_fields :: "string list \<Rightarrow> NodeInput \<Rightarrow> bool" where
  "node_fields ps n \<longleftrightarrow> (\<exists>index x y z. ps = [''NODE'', index, x, y, z, flag_text (node_alive n)] \<and>
     decimal_text index (unat (node_index n)) \<and>
     double_text x (node_x n) \<and> double_text y (node_y n) \<and> double_text z (node_z n))"

definition link_fields :: "string list \<Rightarrow> LinkInput \<Rightarrow> bool" where
  "link_fields ps l \<longleftrightarrow> (\<exists>index source target rate delay loss.
     ps = [''LINK'', index, source, target, rate, delay, loss, flag_text (link_up l)] \<and>
     decimal_text index (unat (link_index l)) \<and> decimal_text source (unat (link_source l)) \<and>
     decimal_text target (unat (link_target l)) \<and> decimal_text rate (unat (link_dataRateBps l)) \<and>
     double_text delay (link_delayMs l) \<and> double_text loss (link_lossRate l))"

definition flow_fields :: "string list \<Rightarrow> FlowInput \<Rightarrow> bool" where
  "flow_fields ps f \<longleftrightarrow> (\<exists>index source target size interval duration.
     ps = [''FLOW'', index, source, target, size, interval, duration, flag_text (fl_enabled f)] \<and>
     decimal_text index (unat (fl_index f)) \<and> decimal_text source (unat (fl_source f)) \<and>
     decimal_text target (unat (fl_target f)) \<and> decimal_text size (unat (fl_packetSizeBytes f)) \<and>
     decimal_text interval (unat (fl_intervalMs f)) \<and> decimal_text duration (unat (fl_durationMs f)))"

lemma digit_facts: "c_isdigit c \<Longrightarrow> \<not> c_isspace c \<and> c \<noteq> CHR ''-'' \<and> c \<noteq> CHR ''+'' \<and> c \<noteq> tab"
  by (auto simp: c_isdigit_def c_isspace_def byte_of_def)

lemma stoull_decimal:
  assumes "decimal_text s n" and "n < 2 ^ 64"
  shows "stoull s = Inr (of_nat n)"
proof -
  obtain c t where s: "s = c # t" using assms(1) by (cases s) (auto simp: decimal_text_def)
  have digits: "all_digits (c # t)" using assms(1) by (simp add: decimal_text_def s)
  then have c: "c_isdigit c" and ds: "takeWhile c_isdigit (c # t) = c # t"
    unfolding takeWhile_eq_all_conv by (simp_all add: all_digits_def list_all_iff)
  have "split_sign (dropWhile c_isspace s) = (False, c # t)" using digit_facts [OF c] by (simp add: s)
  moreover have "\<not> 2 ^ 64 \<le> digits_value 10 (c # t)" "digits_value 10 (c # t) = n"
    using assms by (simp_all add: decimal_text_def s)
  ultimately show ?thesis by (simp only: stoull_def Let_def prod.case ds if_False list.distinct)
qed

lemma unat_bound: "unat (w :: 'a :: len word) < 2 ^ LENGTH('a)"
  by simp

lemma read_decimal:
  "decimal_text s (unat (w :: u64)) \<Longrightarrow> ToUint64 s = Inr w"
  "decimal_text s (unat (v :: u32)) \<Longrightarrow> ToUint32 s = Inr v"
proof -
  show "ToUint64 s = Inr w" if "decimal_text s (unat w)" for w :: u64
    using stoull_decimal [OF that] unat_bound [of w] by (simp add: ToUint64_def)
  assume dec: "decimal_text s (unat v)"
  have v: "unat v < 2 ^ 32" using unat_bound [of v] by simp
  have "stoull s = Inr (of_nat (unat v))" using dec by (rule stoull_decimal) (use v in simp)
  moreover have "unat (of_nat (unat v) :: u64) = unat v"
    using v by (simp add: unsigned_ucast_eq take_bit_nat_eq_self)
  moreover from this have "\<not> 0xFFFFFFFF < (of_nat (unat v) :: u64)"
    using v by (simp add: word_less_nat_alt)
  moreover have "ucast (of_nat (unat v) :: u64) = v"
    by (rule word_unat_eq_iff [THEN iffD2])
      (use v in \<open>simp add: unsigned_ucast_eq unsigned_of_nat take_bit_nat_eq_self take_bit_word_eq_self\<close>)
  ultimately show "ToUint32 s = Inr v" by (simp only: ToUint32_def rbind_simps if_False)
qed

lemma read_double: "double_text s x \<Longrightarrow> ToDouble s = Inr x"
  by (auto simp: double_text_def ToDouble_def)

lemma read_flag: "ToBool (flag_text b) = Inr b"
  by (simp add: ToBool_def flag_text_def)

lemma decimal_clean: "decimal_text s n \<Longrightarrow> tab \<notin> set s \<and> s \<noteq> []"
  using digit_facts by (auto simp: decimal_text_def all_digits_def list_all_iff)

lemma double_clean: "double_text s x \<Longrightarrow> tab \<notin> set s"
  by (simp add: double_text_def)

lemma flag_clean: "tab \<notin> set (flag_text b) \<and> flag_text b \<noteq> []"
  by (simp add: flag_text_def)

text \<open>The program reads these fields back.\<close>

lemma header_read: "header_fields ps sc \<Longrightarrow> clean_fields ps \<and> length ps = 5 \<and> hd ps = ''SCENARIO'' \<and>
    read_scenario_line ps = Inr (sc\<lparr>sc_nodes := [], sc_links := [], sc_flows := []\<rparr>)"
  by (auto simp: header_fields_def clean_fields_def read_scenario_line_def empty_scenario_def
      read_decimal decimal_clean)

lemma node_read: "node_fields ps n \<Longrightarrow> clean_fields ps \<and> length ps = 6 \<and> hd ps = ''NODE'' \<and> read_node ps = Inr n"
  by (auto simp: node_fields_def clean_fields_def read_node_def
      read_decimal read_double read_flag decimal_clean double_clean flag_clean)

lemma link_read: "link_fields ps l \<Longrightarrow> clean_fields ps \<and> length ps = 8 \<and> hd ps = ''LINK'' \<and> read_link_line ps = Inr l"
  by (auto simp: link_fields_def clean_fields_def read_link_line_def
      read_decimal read_double read_flag decimal_clean double_clean flag_clean)

lemma flow_read: "flow_fields ps f \<Longrightarrow> clean_fields ps \<and> length ps = 8 \<and> hd ps = ''FLOW'' \<and> read_flow_line ps = Inr f"
  by (auto simp: flow_fields_def clean_fields_def read_flow_line_def
      read_decimal read_double read_flag decimal_clean double_clean flag_clean)

section \<open>The command loop\<close>

text \<open>
  The scenario and the state of ns-3 after some lines; \<^term>\<open>None\<close> when the program has ended
  before.
\<close>

fun runner_after :: "'s Ns3 \<Rightarrow> string list \<Rightarrow> Scenario \<times> 's \<Rightarrow> (Scenario \<times> 's) option" where
  "runner_after ns3 [] state = Some state"
| "runner_after ns3 (line # lines) state =
     (case runner_step ns3 line state of None \<Rightarrow> None | Some (out, state') \<Rightarrow> runner_after ns3 lines state')"

lemma runner_main_append:
  "runner_after ns3 before state = Some state' \<Longrightarrow>
    runner_main ns3 (before @ after) state = runner_main ns3 before state @ runner_main ns3 after state'"
  by (induction before arbitrary: state) (auto split: option.splits)

lemma runner_step_fields:
  assumes "clean_fields ps" and "hd ps \<noteq> ''QUIT''"
  shows "runner_step ns3 (tabbed ps) (s, world) =
    (case run_command ns3 ps s world of
       None \<Rightarrow> None
     | Some (Inr (out, s), world) \<Rightarrow> Some (out, s, world)
     | Some (Inl e, world) \<Rightarrow> Some (''ERROR'' @ [tab] @ error_text e @ [newline], empty_scenario, world))"
  using tabbed_nonempty [OF assms(1)] tabbed_QUIT [OF assms] SplitTabs_tabbed [OF assms(1)]
  by (simp add: runner_step_def)

text \<open>Lines that each extend the scenario print nothing.\<close>

lemma read_lines:
  assumes "list_all2 (\<lambda>ps x. clean_fields ps \<and> hd ps \<noteq> ''QUIT'' \<and>
      (\<forall>s. run_command ns3 ps s world = Some (Inr ([], add x s), world))) lines xs"
  shows "runner_main ns3 (map tabbed lines @ rest) (s, world) = runner_main ns3 rest (fold add xs s, world)"
  using assms by (induction arbitrary: s rule: list_all2_induct) (simp_all add: runner_step_fields)

lemma fold_nodes: "fold (\<lambda>n s. s\<lparr>sc_nodes := sc_nodes s @ [n]\<rparr>) ns s = s\<lparr>sc_nodes := sc_nodes s @ ns\<rparr>"
  by (induction ns arbitrary: s) simp_all

lemma fold_links: "fold (\<lambda>l s. s\<lparr>sc_links := sc_links s @ [l]\<rparr>) ls s = s\<lparr>sc_links := sc_links s @ ls\<rparr>"
  by (induction ls arbitrary: s) simp_all

lemma fold_flows: "fold (\<lambda>f s. s\<lparr>sc_flows := sc_flows s @ [f]\<rparr>) fs s = s\<lparr>sc_flows := sc_flows s @ fs\<rparr>"
  by (induction fs arbitrary: s) simp_all

lemma run_command_fields:
  "header_fields ps sc \<Longrightarrow> run_command ns3 ps s world =
    Some (Inr ([], sc\<lparr>sc_nodes := [], sc_links := [], sc_flows := []\<rparr>), world)"
  "node_fields ps n \<Longrightarrow> run_command ns3 ps s world = Some (Inr ([], s\<lparr>sc_nodes := sc_nodes s @ [n]\<rparr>), world)"
  "link_fields ps l \<Longrightarrow> run_command ns3 ps s world = Some (Inr ([], s\<lparr>sc_links := sc_links s @ [l]\<rparr>), world)"
  "flow_fields ps f \<Longrightarrow> run_command ns3 ps s world = Some (Inr ([], s\<lparr>sc_flows := sc_flows s @ [f]\<rparr>), world)"
proof -
  note nonempty = clean_fields_def
  show "header_fields ps sc \<Longrightarrow> run_command ns3 ps s world =
      Some (Inr ([], sc\<lparr>sc_nodes := [], sc_links := [], sc_flows := []\<rparr>), world)"
    using header_read [of ps sc] by (simp add: run_command_def nonempty)
  show "node_fields ps n \<Longrightarrow> run_command ns3 ps s world = Some (Inr ([], s\<lparr>sc_nodes := sc_nodes s @ [n]\<rparr>), world)"
    using node_read [of ps n] by (simp add: run_command_def nonempty)
  show "link_fields ps l \<Longrightarrow> run_command ns3 ps s world = Some (Inr ([], s\<lparr>sc_links := sc_links s @ [l]\<rparr>), world)"
    using link_read [of ps l] by (simp add: run_command_def nonempty)
  show "flow_fields ps f \<Longrightarrow> run_command ns3 ps s world = Some (Inr ([], s\<lparr>sc_flows := sc_flows s @ [f]\<rparr>), world)"
    using flow_read [of ps f] by (simp add: run_command_def nonempty)
qed

lemma runner_main_nodes:
  assumes "list_all2 node_fields lines ns"
  shows "runner_main ns3 (map tabbed lines @ rest) (s, world) =
    runner_main ns3 rest (s\<lparr>sc_nodes := sc_nodes s @ ns\<rparr>, world)"
  using read_lines [where add = "\<lambda>n s. s\<lparr>sc_nodes := sc_nodes s @ [n]\<rparr>", OF list_all2_mono [OF assms]]
  by (simp add: run_command_fields node_read fold_nodes)

lemma runner_main_links:
  assumes "list_all2 link_fields lines ls"
  shows "runner_main ns3 (map tabbed lines @ rest) (s, world) =
    runner_main ns3 rest (s\<lparr>sc_links := sc_links s @ ls\<rparr>, world)"
  using read_lines [where add = "\<lambda>l s. s\<lparr>sc_links := sc_links s @ [l]\<rparr>", OF list_all2_mono [OF assms]]
  by (simp add: run_command_fields link_read fold_links)

lemma runner_main_flows:
  assumes "list_all2 flow_fields lines fs"
  shows "runner_main ns3 (map tabbed lines @ rest) (s, world) =
    runner_main ns3 rest (s\<lparr>sc_flows := sc_flows s @ fs\<rparr>, world)"
  using read_lines [where add = "\<lambda>f s. s\<lparr>sc_flows := sc_flows s @ [f]\<rparr>", OF list_all2_mono [OF assms]]
  by (simp add: run_command_fields flow_read fold_flows)

lemma runner_main_header:
  assumes "header_fields ps sc"
  shows "runner_main ns3 (tabbed ps # rest) (s, world) =
    runner_main ns3 rest (sc\<lparr>sc_nodes := [], sc_links := [], sc_flows := []\<rparr>, world)"
  using header_read [OF assms] by (simp add: runner_step_fields run_command_fields(1) [OF assms])

definition error_line :: "exn \<Rightarrow> string" where
  "error_line e = ''ERROR'' @ [tab] @ error_text e @ [newline]"

text \<open>What is printed for a scenario when ns-3 is in the given state; nothing when it aborts.\<close>

definition answer :: "'s Ns3 \<Rightarrow> Scenario \<Rightarrow> 's \<Rightarrow> string" where
  "answer ns3 scenario world =
     (case RunScenario ns3 scenario world of
        None \<Rightarrow> [] | Some (Inr out, _) \<Rightarrow> out | Some (Inl e, _) \<Rightarrow> error_line e)"

lemma runner_main_run: "runner_main ns3 [''RUN''] (s, world) = answer ns3 s world"
proof -
  have "SplitTabs ''RUN'' = [''RUN'']" by (rule SplitTabs_last) simp_all
  then show ?thesis
    by (auto simp: runner_step_def run_command_def error_line_def answer_def split: sum.split option.split)
qed

text \<open>
  C32. When the lines before neither quit nor made ns-3 abort, whatever else they were (failed
  commands and other scenarios included), the lines of a scenario followed by \<open>RUN\<close> are answered for
  exactly this scenario: integers in decimal, doubles as \<open>std::stod\<close> reads them and flags as 0 or 1,
  each in its place in the line that joins them with tabs, are read back as the fields of the scenario,
  nothing is printed until \<open>RUN\<close>, and then either one result per flow and \<open>DONE\<close>, or one
  \<open>ERROR\<close> line when the scenario is not valid, or nothing when ns-3 aborts. Of what came before only
  the state that ns-3 keeps to itself can have an influence, and only on the statistics it measures.
\<close>

theorem runner_session:
  assumes "runner_after ns3 before (scenario, world) = Some (scenario', world')"
    and "header_fields header sc" and "list_all2 node_fields nodes (sc_nodes sc)"
    and "list_all2 link_fields links (sc_links sc)" and "list_all2 flow_fields flows (sc_flows sc)"
  shows "runner_main ns3 (before @ map tabbed (header # nodes @ links @ flows) @ [''RUN'']) (scenario, world) =
    runner_main ns3 before (scenario, world) @ answer ns3 sc world' \<and>
    (ValidateScenario sc \<noteq> Inr () \<longrightarrow> (\<exists>e. answer ns3 sc world' = error_line e \<and> ValidateScenario sc = Inl e))"
proof -
  have "sc\<lparr>sc_nodes := [], sc_links := [], sc_flows := [],
      sc_nodes := sc_nodes sc, sc_links := sc_links sc, sc_flows := sc_flows sc\<rparr> = sc" by simp
  then have "runner_main ns3 (map tabbed (header # nodes @ links @ flows) @ [''RUN'']) (scenario', world') =
      answer ns3 sc world'"
    by (simp add: runner_main_header [OF assms(2)] runner_main_nodes [OF assms(3)]
        runner_main_links [OF assms(4)] runner_main_flows [OF assms(5)] runner_main_run del: runner_main.simps(2))
  then show ?thesis
    using runner_main_append [OF assms(1)] by (auto simp: answer_def RunScenario_def split: sum.split)
qed

text \<open>An unknown command and a run without a scenario, and then a scenario of one node.\<close>

definition one_node :: NodeInput where
  "one_node = \<lparr>node_index = 0, node_x = Fin 1, node_y = Fin 2, node_z = Fin (1 / 2), node_alive = True\<rparr>"

definition one_node_scenario :: Scenario where
  "one_node_scenario = empty_scenario\<lparr>sc_id := ''a'', sc_expectedNodes := 1, sc_nodes := [one_node]\<rparr>"

lemma one_node_fields:
  "header_fields [''SCENARIO'', ''a'', ''1'', ''0'', ''00''] one_node_scenario"
  "node_fields [''NODE'', ''0'', ''1'', ''2e0'', ''0.5'', ''1''] one_node"
  by (simp_all add: header_fields_def node_fields_def decimal_text_def double_text_def flag_text_def all_digits_def
      one_node_scenario_def one_node_def empty_scenario_def number_eval c_isspace_def c_isdigit_def byte_of_def
      digit_value_def)

theorem runner_session_witness:
  "runner_main sample_ns3
     ([''X'', ''RUN''] @ map tabbed [[''SCENARIO'', ''a'', ''1'', ''0'', ''00''], [''NODE'', ''0'', ''1'', ''2e0'', ''0.5'', ''1'']]
       @ [''RUN'']) (empty_scenario, 0) =
   error_line (Runtime_Error ''unknown runner command'') @ ''DONE'' @ [tab, newline] @ ''DONE'' @ [tab] @ ''a'' @ [newline]"
proof -
  have one: "SplitTabs ''X'' = [''X'']" "SplitTabs ''RUN'' = [''RUN'']" by (rule SplitTabs_last; simp)+
  have valid: "ValidateScenario empty_scenario = Inr ()" "ValidateScenario one_node_scenario = Inr ()"
    unfolding ValidateScenario_iff by (simp_all add: empty_scenario_def one_node_scenario_def one_node_def)
  have run: "RunScenario sample_ns3 empty_scenario w = Some (Inr (''DONE'' @ [tab, newline]), w + 1)"
    "RunScenario sample_ns3 one_node_scenario w = Some (Inr (''DONE'' @ [tab] @ ''a'' @ [newline]), w + 1)" for w
    using valid by (simp_all add: RunScenario_def install_flows_def sample_ns3_def empty_scenario_def one_node_scenario_def)
  have before: "runner_after sample_ns3 [''X'', ''RUN''] (empty_scenario, 0) = Some (empty_scenario, 1)"
    and out: "runner_main sample_ns3 [''X'', ''RUN''] (empty_scenario, 0) =
      error_line (Runtime_Error ''unknown runner command'') @ ''DONE'' @ [tab, newline]"
    by (simp_all add: runner_step_def run_command_def one run error_line_def)
  have "list_all2 node_fields [[''NODE'', ''0'', ''1'', ''2e0'', ''0.5'', ''1'']] (sc_nodes one_node_scenario)"
    "list_all2 link_fields [] (sc_links one_node_scenario)" "list_all2 flow_fields [] (sc_flows one_node_scenario)"
    using one_node_fields(2) by (simp_all add: one_node_scenario_def empty_scenario_def)
  from conjunct1 [OF runner_session [OF before one_node_fields(1) this]]
  show ?thesis by (simp only: out answer_def run append_Nil append_Nil2 append_Cons append_assoc option.case prod.case sum.case)
qed

end
