(* ===== verification/Spec2Isabelle.thy ===== *)
theory Spec2Isabelle
  imports ExtensionStream RunnerSession ProtocolJson ScanArrays
begin

text \<open>
  A verification library for the AFSIM to ns-3 bridge: the C++ code that couples a running AFSIM
  simulation with an ns-3 network simulation.

  \<^bold>\<open>The program.\<close> A plugin inside AFSIM (\<open>src/afsim_extension/source/AfsimNs3Extension.cpp\<close>)
  observes the messages that simulated communication devices exchange and, at every step of
  simulated time, collects the platforms, their links and the observed message streams. It hands
  this state to \<open>AfsimBridgeController\<close> (\<open>src/windows_adapter\<close>), which compares it with the last
  one (\<open>StateDeltaTracker\<close>), writes a full snapshot or a change message (\<open>AfsimNs3Protocol\<close>)
  and queues it in \<open>TcpJsonlClient\<close>, whose worker thread keeps a connection to a service and
  sends and reads lines. Metrics lines of the service go back through the controller to two
  gates: \<open>MessageTransportGate\<close>, which decides for each simulated message whether it is
  delivered, lost or has no link, and \<open>NetworkEffectGate\<close>, which holds the reported effects.
  \<open>GeoCoordinates\<close> turns geodetic positions into local ones. The service runs
  \<open>src/ns3_runner/afsim-ns3-runner.cc\<close>, which reads scenarios line by line, runs each in ns-3
  and prints the measured rates.

  \<^bold>\<open>Theories, in the order of their imports.\<close>
  \<^item> \<open>Prelude\<close> (result type, exceptions, integer names), \<open>Rounding\<close> and \<open>Doubles\<close> (IEEE 754
    binary64 with round to nearest, NaN, infinities and signed zero), \<open>CxxText\<close> (character
    classes, \<open>stoull\<close>, \<open>stod\<close>, stream output), \<open>CxxMap\<close> (\<open>std::map\<close> and \<open>std::set\<close> as sorted
    entries, with the locale \<open>ordered_dict\<close>), \<open>DecimalText\<close> (what printed numbers mean).
  \<^item> \<open>Protocol\<close>: \<open>AfsimNs3Protocol.hpp/.cpp\<close>, structures as records and every writer;
    \<open>ProtocolJson\<close>: the grammar of JSON and the values the messages denote; \<open>JsonUnique\<close>: a text
    denotes at most one value, and a double that is not finite is printed as no JSON text.
  \<^item> \<open>JsonScan\<close>: the field scanner of the anonymous namespace of \<open>MessageTransportGate.cpp\<close>;
    \<open>ScanFacts\<close> and \<open>ScanArrays\<close>: what it reads from JSON texts.
  \<^item> \<open>RevisionGate\<close> (locales \<open>revision_gate\<close>, \<open>replacing_gate\<close>), \<open>MessageGate\<close>, \<open>EffectGate\<close>: the two
    gates, which interpret the locales.
  \<^item> \<open>DeltaTracker\<close>: \<open>StateDeltaTracker.hpp/.cpp\<close>; the locale \<open>change_codec\<close> states what change lists
    promise a receiver, interpreted for entities and for flows. \<open>Peer\<close>: the peer of the connection, which
    sees JSON values only and keeps the objects it is sent by their identifiers, against that receiver.
  \<^item> \<open>TcpClient\<close>: \<open>TcpJsonlClient.hpp/.cpp\<close> as the state of the object with its two threads, a
    step relation (\<open>client_step\<close>) whose steps are the critical sections and the socket calls, with
    a turn of the worker's loop (\<open>serve_turn\<close>) that refines it;
    \<open>TcpFacts\<close> (connecting, framing, sending, queue bound) and \<open>TcpStream\<close> (what one connection carries).
  \<^item> \<open>Controller\<close>: \<open>AfsimBridgeController.hpp/.cpp\<close>, with the locale \<open>effect_sink\<close> for the interface
    \<open>IAfsimEffectSink\<close>; \<open>ControllerStream\<close> (the runs of a controller; the peer that reads
    the lines of a connection as JSON holds the last accepted state) and
    \<open>ControllerProgress\<close> (it can always catch up).
  \<^item> \<open>Geo\<close>: \<open>GeoCoordinates.hpp/.cpp\<close> over the operations of a number type, used at the doubles
    and at the reals.
  \<^item> \<open>ExtensionConfig\<close>, \<open>Extension\<close>, \<open>ExtensionTick\<close>: \<open>AfsimNs3Extension.cpp\<close>, its environment
    variables and helpers, its observers, and its simulation step; \<open>ExtensionConfigFacts\<close>,
    \<open>ExtensionFacts\<close>, \<open>ExtensionCollect\<close>: what they guarantee; \<open>ExtensionStream\<close>: the runs of
    the whole bridge.
  \<^item> \<open>Runner\<close>: \<open>afsim-ns3-runner.cc\<close>; \<open>RunnerFacts\<close>: its validation, path search, installation and
    measurement; \<open>RunnerSession\<close>: its input as a whole.

  \<^bold>\<open>State and operations.\<close> A class is a record with the fields of the source (fields that only
  the proofs use begin with \<open>g_\<close>); a member function is a function from the state to the result
  and the new state. An operation that may throw returns a sum with the exception on the left,
  together with the state it leaves where it has already changed it. A lock makes its critical
  section one step. Machine integers are words of their width, \<open>std::size_t\<close> counts are
  naturals; conversions from doubles are partial where the language leaves them undefined.

  \<^bold>\<open>What is shown.\<close> Refinement: the lines the peer of the connection reads have one reading as JSON,
  and applying it the peer holds exactly the objects of the last accepted state, for the runs of the
  controller and, with AFSIM's side included, of the extension; the messages denote the states as
  JSON. Both need finite doubles, since the writers print others as \<open>nan\<close> and \<open>inf\<close>. Liveness: a
  step with plausible input succeeds, and from every state the worker can catch up. Types and
  invariants: links sent have positive rates and loss rates in the unit interval, gates
  hold finite delays and loss rates in the unit interval. Functional behaviour: decisions, draws,
  change lists, effects, path search, validation. Errors: rejected states and coordinates.
  Bounds: integers read and converted, ports, times, queue length.

  \<^bold>\<open>Bounds and fuel.\<close> No definition uses fuel. The scanner's loops and the path search are
  functions with a termination proof. The conversion of angles, whose loops may run forever, is
  a \<open>partial_function (option)\<close>: \<open>None\<close> is a loop that does not end, and \<open>Degrees_ends\<close> says when
  that is. Up to the \<open>2 ^ 52\<close> degrees in it neighbouring doubles are at most 1 apart, so that every
  turn added or subtracted makes progress.

  \<^bold>\<open>Parameters and hypotheses.\<close> AFSIM is not part of the repository: what its accessors return at
  a call is a record passed to the operation (\<open>Comm\<close>, \<open>CommView\<close>, \<open>PlatformView\<close>, \<open>AfsimWorld\<close>,
  \<open>WsfMessage\<close>, \<open>CommResult\<close>), and a pointer that may be null is an option. The functions of the
  mathematical library, and what an undefined conversion yields in a compiled program, are the
  record \<open>Afsim\<close>. ns-3 is a parameter of the runner (\<open>Ns3\<close>): the addresses of the interfaces, and a
  simulation that reads and changes a state of its own, of any type, kept from run to run, and that
  yields the statistics or aborts the process. The operating system's sockets appear as the outcomes of the calls
  (\<open>Answers\<close> for a connection attempt, \<open>io_event\<close> for sending, \<open>recv_event\<close> for receiving) and the
  choice of the worker's steps. No property assumes more of them than its statement says.

  \<^bold>\<open>Choices in the model.\<close> \<open>ControllerStop\<close> and \<open>CompleteExtension\<close> end with the request to stop;
  the worker's exit and the join are steps of the client. The extension's log is the list of its
  lines. The error handler of the effects is known by the calls made to it; the extension's own
  sink accepts every effect, so the calls never interleave with it. The observers' text
  identifiers (\<open>StringIdText\<close>) are given as texts. The nesting depth of \<open>MatchingEnd\<close> is an unbounded
  integer, where the source's \<open>int\<close> suffices up to $2^{31}$ open brackets, and the cast of a message's
  length to \<open>int\<close> in \<open>SendAll\<close> is the identity, as it is below 2 GiB. Whether a line handler is set is
  read once for the lines of one read; the program sets it once, in the constructor of the controller.
  The runs of a controller (\<open>controls\<close>) contain every operation; a direct \<open>SubmitDelta\<close> in them has a change
  list that leads to the state given with it, and a direct call that is rejected for its flows after a
  state was accepted is left out, because what follows it no longer reaches the peer (the
  lemma \<open>rejected_reset_loses_entities\<close> of \<open>DeltaTracker\<close>).

  \<^bold>\<open>Not modelled.\<close> The registration of the plugin (\<open>AfsimNs3Extension.cpp\<close>, lines 1031 to 1070) and
  the wiring of the callbacks only call AFSIM. Of the socket functions of \<open>TcpJsonlClient.cpp\<close> the
  Windows branches are left out. The construction of ns-3 objects in
  \<open>RunScenario\<close> is represented by what is installed. The Python service (\<open>src/afsim_ns3_bridge\<close>)
  is the peer of the client and appears only by what it keeps of the messages (\<open>Peer\<close>); its own
  checks of them are not modelled.

  \<^bold>\<open>Plan.\<close> Next: the numbers printed in the runner's results, and the attribution of measured rates
  to flows with colliding ports.
\<close>

end
